theory Spec2Isabelle
  imports Main
begin

section \<open>JavaScript values\<close>

text \<open>
  Task results are opaque payloads (\<open>unknown\<close> in the source) that the executors build as
  object literals and that \<open>validateTaskResult\<close> reads through \<open>any\<close>. They are modelled
  by a small universe of JavaScript values. An absent optional field reads as
  \<open>JUndefined\<close>, as it does in JavaScript. Dates are the logical time at which
  \<open>new Date()\<close> was evaluated.
\<close>

datatype jsval =
    JUndefined
  | JNull
  | JBool bool
  | JNum int
  | JStr string
  | JDate nat
  | JArr "jsval list"
  | JObj "(string \<times> jsval) list"

text \<open>JavaScript truthiness, as used by \<open>!x\<close>, \<open>x && y\<close> and \<open>x || y\<close>.\<close>

fun truthy :: "jsval \<Rightarrow> bool" where
  "truthy JUndefined = False"
| "truthy JNull = False"
| "truthy (JBool b) = b"
| "truthy (JNum n) = (n \<noteq> 0)"
| "truthy (JStr s) = (s \<noteq> [])"
| "truthy (JDate d) = True"
| "truthy (JArr xs) = True"
| "truthy (JObj kvs) = True"

text \<open>
  Reading a named property \<open>v.k\<close> of a truthy value: an object yields the stored value or
  \<open>undefined\<close>; the properties read by this program (\<open>status\<close>, \<open>completedBy\<close>) are not
  defined on primitives, dates or arrays, which therefore yield \<open>undefined\<close>. (On
  \<open>undefined\<close> and \<open>null\<close> the read would throw; every caller below tests truthiness first.)
\<close>

fun get_prop :: "jsval \<Rightarrow> string \<Rightarrow> jsval" where
  "get_prop (JObj kvs) k = (case map_of kvs k of Some v \<Rightarrow> v | None \<Rightarrow> JUndefined)"
| "get_prop v k = JUndefined"

text \<open>The value of \<open>a && b\<close>.\<close>

definition js_and :: "jsval \<Rightarrow> jsval \<Rightarrow> jsval" where
  "js_and a b = (if truthy a then b else a)"

text \<open>\<open>s || d\<close> for an optional string \<open>s\<close>: absent and empty strings are falsy.\<close>

definition str_or :: "string option \<Rightarrow> string \<Rightarrow> string" where
  "str_or s d = (case s of None \<Rightarrow> d | Some x \<Rightarrow> if x = [] then d else x)"

section \<open>Errors\<close>

text \<open>
  The error classes thrown by the engine. \<open>PhaseExecutionError\<close> carries the phase id and
  a context object whose \<open>pendingTasks\<close> and \<open>failedTasks\<close> entries are optional;
  \<open>TransitionError\<close> carries the source and target phase ids.
\<close>

datatype js_error =
    JsError string
  | StateMachineError string string
  | TransitionError string string string
  | PhaseExecutionError string string "string list option" "string list option"

section \<open>Definitions and instances\<close>

datatype task_state = TPending | TRunning | TCompleted | TFailed | TSkipped

datatype phase_state = PPending | PActive | PCompleted | PFailed | PSkipped | PRolledBack

datatype machine_state = MIdle | MRunning | MPaused | MCompleted | MFailed

record task =
  t_id :: string
  t_type :: string
  t_required :: bool
  t_dependencies :: "string list option"
  t_assignee :: "string option"
  t_outputs :: "string list option"
  t_tools :: "string list option"

record task_instance =
  ti_taskId :: string
  ti_state :: task_state
  ti_startedAt :: "nat option"
  ti_completedAt :: "nat option"
  ti_result :: jsval
  ti_error :: "js_error option"
  ti_retryCount :: nat

record phase_instance =
  pi_phaseId :: string
  pi_state :: phase_state
  pi_taskStates :: "string \<rightharpoonup> task_instance"
  pi_startedAt :: "nat option"
  pi_completedAt :: "nat option"
  pi_error :: "js_error option"
  pi_retryCount :: nat

section \<open>TaskExecutor.validateTaskResult\<close>

text \<open>
  The value returned by \<open>validateTaskResult\<close>. The \<open>manual\<close> arm returns the value of
  \<open>result.status === 'success' && result.completedBy\<close>, which is the \<open>completedBy\<close> value
  itself when the status matches.
\<close>

definition validateTaskResult :: "task \<Rightarrow> task_instance \<Rightarrow> jsval" where
  "validateTaskResult tk ti =
     (if \<not> truthy (ti_result ti) then JBool False
      else
        let result = ti_result ti; status = get_prop result ''status'' in
        if t_type tk = ''automated'' then JBool (status = JStr ''success'')
        else if t_type tk = ''manual'' then
          js_and (JBool (status = JStr ''success'')) (get_prop result ''completedBy'')
        else if t_type tk = ''review'' then
          JBool (status = JStr ''approved'' \<or> status = JStr ''passed'')
        else if t_type tk = ''approval'' then JBool (status = JStr ''approved'')
        else JBool (status = JStr ''success'' \<or> status = JStr ''completed''))"

section \<open>PhaseExecutor.rollbackPhase\<close>

definition rollback_task :: "task_instance \<Rightarrow> task_instance" where
  "rollback_task ti =
     (if ti_state ti = TCompleted
      then ti\<lparr>ti_state := TPending, ti_result := JUndefined, ti_error := None\<rparr>
      else ti)"

definition rollbackPhase :: "phase_instance \<Rightarrow> phase_instance" where
  "rollbackPhase p =
     p\<lparr>pi_state := PRolledBack,
       pi_taskStates := (\<lambda>k. map_option rollback_task (pi_taskStates p k))\<rparr>"

section \<open>Phases, metadata and the task executor\<close>

record phase =
  ph_id :: string
  ph_tasks :: "task list"
  ph_nextPhases :: "string list"

text \<open>
  The run-time control flags that the task executor and the transition validator read
  from the free-form metadata, with the types the casts of the source give them.
\<close>

record metadata =
  md_completedTasks :: "string list option"
  md_approvedReviews :: "string list option"
  md_approvedTasks :: "string list option"
  md_autoApprove :: jsval
  md_approved :: jsval
  md_approvalDecisions :: "(string \<times> bool) list option"

text \<open>\<open>metadata?.field?.includes(id)\<close> for an optional metadata object and list.\<close>

definition md_includes ::
  "metadata option \<Rightarrow> (metadata \<Rightarrow> string list option) \<Rightarrow> string \<Rightarrow> bool" where
  "md_includes md field x =
     (case md of None \<Rightarrow> False
      | Some m \<Rightarrow> (case field m of None \<Rightarrow> False | Some xs \<Rightarrow> x \<in> set xs))"

definition str_array :: "string list option \<Rightarrow> jsval" where
  "str_array xs = (case xs of None \<Rightarrow> JArr [] | Some ys \<Rightarrow> JArr (map JStr ys))"

definition executeAutomatedTask :: "nat \<Rightarrow> task \<Rightarrow> metadata option \<Rightarrow> jsval" where
  "executeAutomatedTask now tk md =
     JObj [(''status'', JStr ''success''),
           (''outputs'', str_array (t_outputs tk)),
           (''executedAt'', JDate now),
           (''metadata'', JObj [(''tools'', str_array (t_tools tk)),
                                (''automated'', JBool True)])]"

definition executeManualTask :: "nat \<Rightarrow> task \<Rightarrow> metadata option \<Rightarrow> jsval" where
  "executeManualTask now tk md =
     (if md_includes md md_completedTasks (t_id tk) then
        JObj [(''status'', JStr ''success''),
              (''completedBy'', JStr (str_or (t_assignee tk) ''system'')),
              (''completedAt'', JDate now),
              (''outputs'', str_array (t_outputs tk))]
      else
        JObj [(''status'', JStr ''success''),
              (''completedBy'', JStr (str_or (t_assignee tk) ''unknown'')),
              (''completedAt'', JDate now),
              (''outputs'', str_array (t_outputs tk)),
              (''notes'', JStr ''Simulated manual completion'')])"

definition executeReviewTask :: "nat \<Rightarrow> task \<Rightarrow> metadata option \<Rightarrow> jsval" where
  "executeReviewTask now tk md =
     (if md_includes md md_approvedReviews (t_id tk) then
        JObj [(''status'', JStr ''approved''),
              (''reviewedBy'', JStr (str_or (t_assignee tk) ''system'')),
              (''reviewedAt'', JDate now),
              (''feedback'', JStr ''Pre-approved via metadata'')]
      else
        JObj [(''status'', JStr ''approved''),
              (''reviewedBy'', JStr (str_or (t_assignee tk) ''reviewer'')),
              (''reviewedAt'', JDate now),
              (''feedback'', JStr ''Review passed''),
              (''findings'', JArr [])])"

text \<open>
  \<open>approvalDecisions?.[id] !== false\<close>: only an explicit \<open>false\<close> entry rejects.
\<close>

definition approval_decision :: "metadata option \<Rightarrow> string \<Rightarrow> bool" where
  "approval_decision md x =
     (case md of None \<Rightarrow> True
      | Some m \<Rightarrow>
          (case md_approvalDecisions m of None \<Rightarrow> True
           | Some ds \<Rightarrow> map_of ds x \<noteq> Some False))"

definition executeApprovalTask :: "nat \<Rightarrow> task \<Rightarrow> metadata option \<Rightarrow> jsval" where
  "executeApprovalTask now tk md =
     (if (case md of None \<Rightarrow> False | Some m \<Rightarrow> md_autoApprove m = JBool True)
         \<or> md_includes md md_approvedTasks (t_id tk) then
        JObj [(''status'', JStr ''approved''),
              (''approvedBy'', JStr ''system''),
              (''approvedAt'', JDate now),
              (''autoApproved'', JBool True)]
      else
        let approved = approval_decision md (t_id tk) in
        JObj [(''status'', JStr (if approved then ''approved'' else ''rejected'')),
              (''approvedBy'', JStr (str_or (t_assignee tk) ''approver'')),
              (''approvedAt'', JDate now),
              (''reason'', JStr (if approved then ''Criteria met''
                                 else ''Requirements not satisfied''))])"

text \<open>
  \<open>TaskExecutor.executeTask\<close>: dispatch on the declared type, unknown types being treated
  as manual. The simulated waits have no effect on the result. The first argument is the
  time of the call.
\<close>

definition executeTask :: "nat \<Rightarrow> task \<Rightarrow> metadata option \<Rightarrow> js_error + jsval" where
  "executeTask now tk md =
     (if t_type tk = ''automated'' then Inr (executeAutomatedTask now tk md)
      else if t_type tk = ''manual'' then Inr (executeManualTask now tk md)
      else if t_type tk = ''review'' then Inr (executeReviewTask now tk md)
      else if t_type tk = ''approval'' then Inr (executeApprovalTask now tk md)
      else Inr (executeManualTask now tk md))"

section \<open>PhaseExecutor.executePhase\<close>

text \<open>
  The phase executor is given its task executor through an interface; the scheduler is
  modelled for an arbitrary one: a function from the number of calls made so far (which
  also serves as the clock), the task and the metadata to a rejection or a result.

  The scheduler's state is the task-instance map of the phase instance, the two sets
  \<open>executedTasks\<close> and \<open>failedTasks\<close> (JavaScript sets, kept in insertion order), and the
  call counter. The field \<open>sc_events\<close> records what happened, in order: a task instance
  marked \<open>running\<close> and handed to the task executor, marked \<open>completed\<close>, marked \<open>failed\<close>,
  marked \<open>skipped\<close>.
\<close>

type_synonym task_executor = "nat \<Rightarrow> task \<Rightarrow> metadata option \<Rightarrow> js_error + jsval"

datatype event =
    TaskStarted nat task
  | TaskCompleted string
  | TaskFailed string
  | TaskSkipped string

record sched =
  sc_taskStates :: "string \<rightharpoonup> task_instance"
  sc_executedTasks :: "string list"
  sc_failedTasks :: "string list"
  sc_events :: "event list"
  sc_calls :: nat

definition set_add :: "'a \<Rightarrow> 'a list \<Rightarrow> 'a list" where
  "set_add x xs = (if x \<in> set xs then xs else xs @ [x])"

definition dependencies :: "task \<Rightarrow> string list" where
  "dependencies tk = (case t_dependencies tk of None \<Rightarrow> [] | Some ds \<Rightarrow> ds)"

definition new_task_instance :: "string \<Rightarrow> task_instance" where
  "new_task_instance k =
     \<lparr>ti_taskId = k, ti_state = TPending, ti_startedAt = None, ti_completedAt = None,
      ti_result = JUndefined, ti_error = None, ti_retryCount = 0\<rparr>"

definition init_task :: "task \<Rightarrow> (string \<rightharpoonup> task_instance) \<Rightarrow> (string \<rightharpoonup> task_instance)" where
  "init_task tk m =
     (if m (t_id tk) = None then m(t_id tk \<mapsto> new_task_instance (t_id tk)) else m)"

definition tasksToExecute :: "phase \<Rightarrow> sched \<Rightarrow> task list" where
  "tasksToExecute ph s =
     filter (\<lambda>tk.
        if t_id tk \<in> set (sc_executedTasks s) \<or> t_id tk \<in> set (sc_failedTasks s) then False
        else list_all (\<lambda>depId. depId \<in> set (sc_executedTasks s)) (dependencies tk))
       (ph_tasks ph)"

definition pendingTasks :: "phase \<Rightarrow> sched \<Rightarrow> task list" where
  "pendingTasks ph s =
     filter (\<lambda>tk. \<not> t_id tk \<in> set (sc_executedTasks s) \<and> \<not> t_id tk \<in> set (sc_failedTasks s))
       (ph_tasks ph)"

text \<open>
  \<open>PhaseExecutor.executeTask\<close> up to its \<open>await\<close>: it rejects if the task has no instance,
  and otherwise marks the instance \<open>running\<close> and calls the task executor. The second
  component is the outcome the call will settle with.
\<close>

definition executeTask_begin ::
  "task_executor \<Rightarrow> metadata option \<Rightarrow> task \<Rightarrow> sched \<Rightarrow> sched \<times> (js_error + jsval)" where
  "executeTask_begin te md tk s =
     (case sc_taskStates s (t_id tk) of
        None \<Rightarrow> (s, Inl (JsError (''Task instance not found: '' @ t_id tk)))
      | Some ti \<Rightarrow>
          (s\<lparr>sc_taskStates := (sc_taskStates s)
                (t_id tk \<mapsto> ti\<lparr>ti_state := TRunning, ti_startedAt := Some (sc_calls s)\<rparr>),
             sc_events := sc_events s @ [TaskStarted (sc_calls s) tk],
             sc_calls := Suc (sc_calls s)\<rparr>,
           te (sc_calls s) tk md))"

text \<open>
  The rest of \<open>PhaseExecutor.executeTask\<close>, once the task executor has settled: the
  instance becomes \<open>completed\<close> with the result, or \<open>failed\<close> with the error. A task without
  an instance was rejected before anything was written.
\<close>

definition executeTask_settle :: "task \<times> (js_error + jsval) \<Rightarrow> sched \<Rightarrow> sched" where
  "executeTask_settle x s =
     (case sc_taskStates s (t_id (fst x)) of
        None \<Rightarrow> s
      | Some ti \<Rightarrow>
          (case snd x of
             Inr r \<Rightarrow>
               s\<lparr>sc_taskStates := (sc_taskStates s)
                    (t_id (fst x) \<mapsto> ti\<lparr>ti_state := TCompleted,
                                         ti_completedAt := Some (sc_calls s),
                                         ti_result := r\<rparr>),
                 sc_events := sc_events s @ [TaskCompleted (t_id (fst x))]\<rparr>
           | Inl e \<Rightarrow>
               s\<lparr>sc_taskStates := (sc_taskStates s)
                    (t_id (fst x) \<mapsto> ti\<lparr>ti_state := TFailed,
                                         ti_completedAt := Some (sc_calls s),
                                         ti_error := Some e\<rparr>),
                 sc_events := sc_events s @ [TaskFailed (t_id (fst x))]\<rparr>))"

text \<open>The body of \<open>results.forEach\<close>: the scheduler's classification of one outcome.\<close>

definition classify :: "task \<times> (js_error + jsval) \<Rightarrow> sched \<Rightarrow> sched" where
  "classify x s =
     (case snd x of
        Inr r \<Rightarrow> s\<lparr>sc_executedTasks := set_add (t_id (fst x)) (sc_executedTasks s)\<rparr>
      | Inl e \<Rightarrow>
          if t_required (fst x) then
            s\<lparr>sc_failedTasks := set_add (t_id (fst x)) (sc_failedTasks s)\<rparr>
          else
            (case sc_taskStates s (t_id (fst x)) of
               None \<Rightarrow> s
             | Some ti \<Rightarrow>
                 s\<lparr>sc_taskStates := (sc_taskStates s)(t_id (fst x) \<mapsto> ti\<lparr>ti_state := TSkipped\<rparr>),
                   sc_events := sc_events s @ [TaskSkipped (t_id (fst x))]\<rparr>)
            \<lparr>sc_executedTasks := set_add (t_id (fst x)) (sc_executedTasks s)\<rparr>)"

fun begin_all ::
  "task_executor \<Rightarrow> metadata option \<Rightarrow> task list \<Rightarrow> sched
     \<Rightarrow> sched \<times> (task \<times> (js_error + jsval)) list" where
  "begin_all te md [] s = (s, [])"
| "begin_all te md (tk # tks) s =
     (case executeTask_begin te md tk s of
        (s1, r) \<Rightarrow> (case begin_all te md tks s1 of (s2, rs) \<Rightarrow> (s2, (tk, r) # rs)))"

text \<open>
  One pass of the loop body for a non-empty frontier: every task of the frontier is begun,
  in order (the \<open>map\<close> over \<open>tasksToExecute\<close>); then all of them settle
  (\<open>Promise.allSettled\<close>; they are taken in list order); then the outcomes are classified.
\<close>

definition run_frontier :: "task_executor \<Rightarrow> metadata option \<Rightarrow> task list \<Rightarrow> sched \<Rightarrow> sched" where
  "run_frontier te md tks s =
     (case begin_all te md tks s of
        (s1, rs) \<Rightarrow> fold classify rs (fold executeTask_settle rs s1))"

lemma begin_all_tasks: "begin_all te md tks s = (s1, rs) \<Longrightarrow> map fst rs = tks"
  by (induction tks arbitrary: s s1 rs) (auto split: prod.splits)

lemma executeTask_begin_sets:
  "executeTask_begin te md tk s = (s1, r) \<Longrightarrow>
     sc_executedTasks s1 = sc_executedTasks s \<and> sc_failedTasks s1 = sc_failedTasks s"
  by (auto simp: executeTask_begin_def split: option.splits)

lemma begin_all_sets:
  "begin_all te md tks s = (s1, rs) \<Longrightarrow>
     sc_executedTasks s1 = sc_executedTasks s \<and> sc_failedTasks s1 = sc_failedTasks s"
proof (induction tks arbitrary: s s1 rs)
  case Nil
  then show ?case by simp
next
  case (Cons tk tks)
  obtain sa r where a: "executeTask_begin te md tk s = (sa, r)"
    by (cases "executeTask_begin te md tk s") auto
  obtain sb rs' where b: "begin_all te md tks sa = (sb, rs')"
    by (cases "begin_all te md tks sa") auto
  from Cons.prems a b have "s1 = sb" by simp
  with Cons.IH [OF b] executeTask_begin_sets [OF a] show ?case by simp
qed

lemma settle_sets:
  "sc_executedTasks (fold executeTask_settle rs s) = sc_executedTasks s
   \<and> sc_failedTasks (fold executeTask_settle rs s) = sc_failedTasks s"
  by (induction rs arbitrary: s)
     (auto simp: executeTask_settle_def split: option.splits sum.splits)

definition resolved_count :: "sched \<Rightarrow> nat" where
  "resolved_count s = length (sc_executedTasks s) + length (sc_failedTasks s)"

lemma classify_count_mono: "resolved_count s \<le> resolved_count (classify x s)"
  by (auto simp: classify_def resolved_count_def set_add_def split: sum.splits option.splits)

lemma fold_classify_count_mono: "resolved_count s \<le> resolved_count (fold classify rs s)"
proof (induction rs arbitrary: s)
  case Nil
  show ?case by simp
next
  case (Cons x rs)
  have "resolved_count s \<le> resolved_count (classify x s)"
    by (rule classify_count_mono)
  also have "\<dots> \<le> resolved_count (fold classify rs (classify x s))"
    by (rule Cons.IH)
  finally show ?case by simp
qed

lemma classify_count_fresh:
  assumes "t_id (fst x) \<notin> set (sc_executedTasks s)" "t_id (fst x) \<notin> set (sc_failedTasks s)"
  shows "resolved_count s < resolved_count (classify x s)"
  using assms
  by (auto simp: classify_def resolved_count_def set_add_def split: sum.splits option.splits)

lemma tasksToExecute_fresh:
  "tk \<in> set (tasksToExecute ph s) \<Longrightarrow>
     t_id tk \<notin> set (sc_executedTasks s) \<and> t_id tk \<notin> set (sc_failedTasks s)"
  by (auto simp: tasksToExecute_def split: if_splits)

lemma run_frontier_progress:
  assumes "tasksToExecute ph s \<noteq> []"
  shows "resolved_count s < resolved_count (run_frontier te md (tasksToExecute ph s) s)"
proof -
  obtain s1 rs where b: "begin_all te md (tasksToExecute ph s) s = (s1, rs)"
    by (cases "begin_all te md (tasksToExecute ph s) s") auto
  from b have tks: "map fst rs = tasksToExecute ph s"
    by (rule begin_all_tasks)
  with assms obtain x rs' where rs: "rs = x # rs'"
    by (cases rs) auto
  define s2 where "s2 = fold executeTask_settle rs s1"
  have sets: "sc_executedTasks s2 = sc_executedTasks s" "sc_failedTasks s2 = sc_failedTasks s"
    using settle_sets [of rs s1] begin_all_sets [OF b]
    by (simp_all add: s2_def)
  have "fst x \<in> set (tasksToExecute ph s)"
    using tks rs by (metis list.set_intros(1) list.simps(9))
  then have fresh: "t_id (fst x) \<notin> set (sc_executedTasks s2)"
                   "t_id (fst x) \<notin> set (sc_failedTasks s2)"
    using tasksToExecute_fresh sets by auto
  have "resolved_count s = resolved_count s2"
    by (simp add: resolved_count_def sets)
  also have "\<dots> < resolved_count (classify x s2)"
    using fresh by (rule classify_count_fresh)
  also have "\<dots> \<le> resolved_count (fold classify rs' (classify x s2))"
    by (rule fold_classify_count_mono)
  finally show ?thesis
    by (simp add: run_frontier_def b rs s2_def)
qed

text \<open>
  The \<open>while\<close> loop. It returns the state it stopped in and the error thrown, if any.
  Every pass with a non-empty frontier resolves at least one more task id, so the loop
  terminates.
\<close>

function schedule ::
  "task_executor \<Rightarrow> metadata option \<Rightarrow> phase \<Rightarrow> sched \<Rightarrow> sched \<times> js_error option" where
  "schedule te md ph s =
     (if length (sc_executedTasks s) + length (sc_failedTasks s) < length (ph_tasks ph) then
        if tasksToExecute ph s = [] then
          if pendingTasks ph s \<noteq> [] then
            (s, Some (PhaseExecutionError
                        ''Cannot execute remaining tasks due to unsatisfied dependencies''
                        (ph_id ph)
                        (Some (map t_id (pendingTasks ph s)))
                        (Some (sc_failedTasks s))))
          else (s, None)
        else schedule te md ph (run_frontier te md (tasksToExecute ph s) s)
      else (s, None))"
  by pat_completeness auto
termination
proof (relation "measure (\<lambda>(te, md, ph, s). length (ph_tasks ph) - resolved_count s)")
  show "wf (measure (\<lambda>(te, md, ph, s). length (ph_tasks ph) - resolved_count s))"
    by simp
next
  fix te :: task_executor and md ph s
  assume "length (sc_executedTasks s) + length (sc_failedTasks s) < length (ph_tasks ph)"
    and "tasksToExecute ph s \<noteq> []"
  then show "((te, md, ph, run_frontier te md (tasksToExecute ph s) s), (te, md, ph, s))
      \<in> measure (\<lambda>(te, md, ph, s). length (ph_tasks ph) - resolved_count s)"
    using run_frontier_progress [of ph s te md]
    by (simp add: resolved_count_def)
qed

declare schedule.simps [simp del]

text \<open>
  \<open>validatePhaseCompletion\<close>: every required task has an instance in state \<open>completed\<close>.
  (The exit conditions and deliverables are only logged.)
\<close>

definition validatePhaseCompletion :: "phase \<Rightarrow> (string \<rightharpoonup> task_instance) \<Rightarrow> bool" where
  "validatePhaseCompletion ph m =
     list_all (\<lambda>tk. case m (t_id tk) of None \<Rightarrow> False | Some ti \<Rightarrow> ti_state ti = TCompleted)
       (filter t_required (ph_tasks ph))"

definition init_sched :: "phase \<Rightarrow> phase_instance \<Rightarrow> nat \<Rightarrow> sched" where
  "init_sched ph p clk =
     \<lparr>sc_taskStates = fold init_task (ph_tasks ph) (pi_taskStates p),
      sc_executedTasks = [], sc_failedTasks = [], sc_events = [], sc_calls = clk\<rparr>"

text \<open>
  What a call of \<open>PhaseExecutor.executePhase\<close> leaves behind: the phase instance as the
  call left it (it is mutated in place, also when the call throws), the record of what
  happened, and the error thrown, if any.
\<close>

record phase_run =
  run_instance :: phase_instance
  run_events :: "event list"
  run_error :: "js_error option"

definition PhaseExecutor_executePhase ::
  "task_executor \<Rightarrow> metadata option \<Rightarrow> phase \<Rightarrow> phase_instance \<Rightarrow> nat \<Rightarrow> phase_run" where
  "PhaseExecutor_executePhase te md ph p clk =
     (case schedule te md ph (init_sched ph p clk) of
        (s, err) \<Rightarrow>
          \<lparr>run_instance = p\<lparr>pi_taskStates := sc_taskStates s\<rparr>,
           run_events = sc_events s,
           run_error =
             (case err of
                Some e \<Rightarrow> Some e
              | None \<Rightarrow>
                  if sc_failedTasks s \<noteq> [] then
                    Some (PhaseExecutionError
                            ''Phase execution failed due to required task failures''
                            (ph_id ph) None (Some (sc_failedTasks s)))
                  else if \<not> validatePhaseCompletion ph (sc_taskStates s) then
                    Some (PhaseExecutionError ''Phase completion validation failed''
                            (ph_id ph) None None)
                  else None)\<rparr>)"

section \<open>StateMachine\<close>

record transition =
  tr_from :: string
  tr_to :: string
  tr_conditions :: "string list"
  tr_requiresApproval :: bool

record workflow =
  wf_id :: string
  wf_name :: string
  wf_initialPhase :: string
  wf_phases :: "phase list"
  wf_transitions :: "transition list"

record workflow_instance =
  wi_id :: string
  wi_workflowId :: string
  wi_name :: string
  wi_state :: machine_state
  wi_currentPhaseId :: "string option"
  wi_phaseStates :: "string \<rightharpoonup> phase_instance"
  wi_startedAt :: nat
  wi_completedAt :: "nat option"
  wi_error :: "js_error option"
  wi_metadata :: "metadata option"

record transition_context =
  tc_workflowInstance :: workflow_instance
  tc_fromPhase :: phase
  tc_toPhase :: phase
  tc_transition :: transition
  tc_metadata :: "metadata option"

record config =
  enablePersistence :: bool
  enableRetries :: bool
  maxRetries :: "nat option"

record persistence_layer =
  saveWorkflowInstance :: "nat \<Rightarrow> workflow_instance \<Rightarrow> js_error option"
  updateWorkflowInstance :: "nat \<Rightarrow> string \<Rightarrow> workflow_instance \<Rightarrow> js_error option"

text \<open>
  The collaborators injected into the state machine: the definition provider, the
  transition validator, the phase executor, the optional persistence layer and the
  configuration. Each is an arbitrary function; the first argument of a call that can
  depend on when it is made is the time of the call. The phase executor returns the
  phase instance as it left it and the error it threw, if any; a persistence call returns
  the error it threw, if any.
\<close>

record collaborators =
  getWorkflow :: "string \<Rightarrow> workflow option"
  getPhase :: "string \<Rightarrow> string \<Rightarrow> phase option"
  getAvailableTransitions :: "string \<Rightarrow> string \<Rightarrow> transition list"
  canTransition :: "nat \<Rightarrow> transition_context \<Rightarrow> bool"
  phaseExecutor ::
    "nat \<Rightarrow> workflow_instance \<Rightarrow> phase \<Rightarrow> phase_instance \<Rightarrow> phase_instance \<times> js_error option"
  persistence :: "persistence_layer option"
  config :: config

text \<open>
  The state of the machine is its table of instances. Instances and phase instances are
  objects mutated in place; the table is the store, an instance id or phase id the
  reference. The log records, in order, the entries into \<open>executePhase\<close> and
  \<open>transitionToPhase\<close> and the calls of the phase executor and of the validator; its
  length is the clock read by \<open>new Date()\<close>.
\<close>

datatype sm_event =
    PhaseStarted string string
  | PhaseExecutorCalled string string
  | TransitionRequested string string
  | ValidatorCalled string string string

record sm_state =
  instances :: "string \<rightharpoonup> workflow_instance"
  sm_log :: "sm_event list"

type_synonym sm_result = "(sm_state \<times> js_error option) option"

definition now :: "sm_state \<Rightarrow> nat" where
  "now st = length (sm_log st)"

definition log_event :: "sm_event \<Rightarrow> sm_state \<Rightarrow> sm_state" where
  "log_event e st = st\<lparr>sm_log := sm_log st @ [e]\<rparr>"

definition upd_instance ::
  "string \<Rightarrow> (workflow_instance \<Rightarrow> workflow_instance) \<Rightarrow> sm_state \<Rightarrow> sm_state" where
  "upd_instance iid f st =
     (case instances st iid of
        None \<Rightarrow> st
      | Some wi \<Rightarrow> st\<lparr>instances := (instances st)(iid \<mapsto> f wi)\<rparr>)"

definition upd_phase ::
  "string \<Rightarrow> string \<Rightarrow> (phase_instance \<Rightarrow> phase_instance) \<Rightarrow> sm_state \<Rightarrow> sm_state" where
  "upd_phase iid pid f st =
     upd_instance iid
       (\<lambda>wi. case wi_phaseStates wi pid of
                None \<Rightarrow> wi
              | Some p \<Rightarrow> wi\<lparr>wi_phaseStates := (wi_phaseStates wi)(pid \<mapsto> f p)\<rparr>) st"

definition new_phase_instance :: "string \<Rightarrow> phase_instance" where
  "new_phase_instance pid =
     \<lparr>pi_phaseId = pid, pi_state = PPending, pi_taskStates = Map.empty,
      pi_startedAt = None, pi_completedAt = None, pi_error = None, pi_retryCount = 0\<rparr>"

definition empty_metadata :: metadata where
  "empty_metadata =
     \<lparr>md_completedTasks = None, md_approvedReviews = None, md_approvedTasks = None,
      md_autoApprove = JUndefined, md_approved = JUndefined, md_approvalDecisions = None\<rparr>"

text \<open>\<open>this.config.maxRetries || 3\<close>: an absent limit and the limit \<open>0\<close> are both falsy.\<close>

definition retry_limit :: "config \<Rightarrow> nat" where
  "retry_limit cfg = (case maxRetries cfg of None \<Rightarrow> 3 | Some m \<Rightarrow> if m = 0 then 3 else m)"

text \<open>\<open>updateInstance\<close>: a store write, if persistence is enabled and present.\<close>

definition updateInstance :: "collaborators \<Rightarrow> string \<Rightarrow> sm_state \<Rightarrow> sm_state \<times> js_error option" where
  "updateInstance env iid st =
     (if enablePersistence (config env) then
        (case persistence env of
           None \<Rightarrow> (st, None)
         | Some ps \<Rightarrow>
             (case instances st iid of
                None \<Rightarrow> (st, None)
              | Some wi \<Rightarrow> (st, updateWorkflowInstance ps (now st) (wi_id wi) wi)))
      else (st, None))"

definition completeWorkflow :: "collaborators \<Rightarrow> string \<Rightarrow> sm_state \<Rightarrow> sm_state \<times> js_error option" where
  "completeWorkflow env iid st =
     (case instances st iid of
        None \<Rightarrow> (st, None)
      | Some wi \<Rightarrow>
          updateInstance env iid
            (upd_instance iid
               (\<lambda>wi. wi\<lparr>wi_state := MCompleted, wi_completedAt := Some (now st)\<rparr>) st))"

definition failWorkflow ::
  "collaborators \<Rightarrow> string \<Rightarrow> js_error \<Rightarrow> sm_state \<Rightarrow> sm_state \<times> js_error option" where
  "failWorkflow env iid error st =
     (case instances st iid of
        None \<Rightarrow> (st, None)
      | Some wi \<Rightarrow>
          updateInstance env iid
            (upd_instance iid
               (\<lambda>wi. wi\<lparr>wi_state := MFailed, wi_completedAt := Some (now st),
                         wi_error := Some error\<rparr>) st))"

text \<open>
  The call \<open>this.phaseExecutor.executePhase({workflowInstance, phase, phaseInstance,
  metadata})\<close>: the executor works on the phase instance it is handed.
\<close>

definition runPhaseExecutor ::
  "collaborators \<Rightarrow> string \<Rightarrow> string \<Rightarrow> phase \<Rightarrow> sm_state \<Rightarrow> sm_state \<times> js_error option" where
  "runPhaseExecutor env iid pid phase st =
     (case instances st iid of
        None \<Rightarrow> (st, None)
      | Some wi \<Rightarrow>
          (case wi_phaseStates wi pid of
             None \<Rightarrow> (st, None)
           | Some p \<Rightarrow>
               (case phaseExecutor env (now st) wi phase p of
                  (p', err) \<Rightarrow>
                    (upd_phase iid pid (\<lambda>_. p') (log_event (PhaseExecutorCalled iid pid) st),
                     err))))"

text \<open>
  The \<open>try\<close> block of \<open>executePhase\<close>. Its argument \<open>transitionTo\<close> stands for
  \<open>this.transitionToPhase\<close>.
\<close>

definition try_block ::
  "(string \<Rightarrow> string \<Rightarrow> metadata option \<Rightarrow> sm_state \<Rightarrow> sm_result)
     \<Rightarrow> collaborators \<Rightarrow> string \<Rightarrow> string \<Rightarrow> phase \<Rightarrow> sm_state \<Rightarrow> sm_result" where
  "try_block transitionTo env iid pid phase st =
     (case runPhaseExecutor env iid pid phase st of
        (st1, Some e) \<Rightarrow> Some (st1, Some e)
      | (st1, None) \<Rightarrow>
          (case updateInstance env iid
                  (upd_phase iid pid
                     (\<lambda>p. p\<lparr>pi_state := PCompleted, pi_completedAt := Some (now st1)\<rparr>) st1) of
             (st2, Some e) \<Rightarrow> Some (st2, Some e)
           | (st2, None) \<Rightarrow>
               (case ph_nextPhases phase of
                  [] \<Rightarrow> Some (completeWorkflow env iid st2)
                | nextPhaseId # rest \<Rightarrow>
                    if nextPhaseId \<noteq> [] then
                      transitionTo iid nextPhaseId
                        (Some (case instances st2 iid of
                                 None \<Rightarrow> empty_metadata
                               | Some wi \<Rightarrow>
                                   (case wi_metadata wi of
                                      None \<Rightarrow> empty_metadata
                                    | Some m \<Rightarrow> m)))
                        st2
                    else Some (st2, None))))"

definition phase_retryCount :: "sm_state \<Rightarrow> string \<Rightarrow> string \<Rightarrow> nat" where
  "phase_retryCount st iid pid =
     (case instances st iid of
        None \<Rightarrow> 0
      | Some wi \<Rightarrow> (case wi_phaseStates wi pid of None \<Rightarrow> 0 | Some p \<Rightarrow> pi_retryCount p))"

text \<open>
  The \<open>catch\<close> block of \<open>executePhase\<close>. Its argument \<open>execPhase\<close> stands for
  \<open>this.executePhase\<close>. (The wait before a retry has no effect on the state.)
\<close>

definition catch_block ::
  "(string \<Rightarrow> string \<Rightarrow> sm_state \<Rightarrow> sm_result)
     \<Rightarrow> collaborators \<Rightarrow> string \<Rightarrow> string \<Rightarrow> js_error \<Rightarrow> sm_state \<Rightarrow> sm_result" where
  "catch_block execPhase env iid pid error st =
     (let st1 = upd_phase iid pid
                  (\<lambda>p. p\<lparr>pi_state := PFailed, pi_error := Some error,
                          pi_completedAt := Some (now st)\<rparr>) st
      in if enableRetries (config env)
            \<and> phase_retryCount st1 iid pid < retry_limit (config env) then
           execPhase iid pid (upd_phase iid pid (\<lambda>p. p\<lparr>pi_retryCount := Suc (pi_retryCount p)\<rparr>) st1)
         else
           (case updateInstance env iid st1 of
              (st2, Some e) \<Rightarrow> Some (st2, Some e)
            | (st2, None) \<Rightarrow> Some (failWorkflow env iid error st2)))"

definition executePhase_body ::
  "(string \<Rightarrow> string \<Rightarrow> sm_state \<Rightarrow> sm_result)
     \<Rightarrow> (string \<Rightarrow> string \<Rightarrow> metadata option \<Rightarrow> sm_state \<Rightarrow> sm_result)
     \<Rightarrow> collaborators \<Rightarrow> string \<Rightarrow> string \<Rightarrow> sm_state \<Rightarrow> sm_result" where
  "executePhase_body execPhase transitionTo env iid pid st0 =
     (let st = log_event (PhaseStarted iid pid) st0 in
      case instances st iid of
        None \<Rightarrow>
          Some (st, Some (StateMachineError ''Workflow instance not found''
                            ''INSTANCE_NOT_FOUND''))
      | Some wi \<Rightarrow>
          (case getPhase env (wi_workflowId wi) pid of
             None \<Rightarrow> Some (st, Some (StateMachineError ''Phase not found'' ''PHASE_NOT_FOUND''))
           | Some phase \<Rightarrow>
               (case wi_phaseStates wi pid of
                  None \<Rightarrow>
                    Some (st, Some (StateMachineError ''Phase instance not found''
                                      ''PHASE_INSTANCE_NOT_FOUND''))
                | Some p \<Rightarrow>
                    (case updateInstance env iid
                            (upd_phase iid pid
                               (\<lambda>p. p\<lparr>pi_state := PActive, pi_startedAt := Some (now st)\<rparr>)
                               st) of
                       (st1, Some e) \<Rightarrow> Some (st1, Some e)
                     | (st1, None) \<Rightarrow>
                         (case try_block transitionTo env iid pid phase st1 of
                            None \<Rightarrow> None
                          | Some (st2, None) \<Rightarrow> Some (st2, None)
                          | Some (st2, Some error) \<Rightarrow>
                              catch_block execPhase env iid pid error st2)))))"

text \<open>\<open>transitionToPhase\<close>; its argument \<open>execPhase\<close> stands for \<open>this.executePhase\<close>.\<close>

definition transitionToPhase_body ::
  "(string \<Rightarrow> string \<Rightarrow> sm_state \<Rightarrow> sm_result)
     \<Rightarrow> collaborators \<Rightarrow> string \<Rightarrow> string \<Rightarrow> metadata option \<Rightarrow> sm_state \<Rightarrow> sm_result" where
  "transitionToPhase_body execPhase env iid targetPhaseId ctx st0 =
     (let st = log_event (TransitionRequested iid targetPhaseId) st0 in
      case instances st iid of
        None \<Rightarrow>
          Some (st, Some (StateMachineError ''Workflow instance not found''
                            ''INSTANCE_NOT_FOUND''))
      | Some wi \<Rightarrow>
          (case wi_currentPhaseId wi of
             None \<Rightarrow> Some (st, Some (StateMachineError ''No current phase'' ''NO_CURRENT_PHASE''))
           | Some cur \<Rightarrow>
               if cur = [] then
                 Some (st, Some (StateMachineError ''No current phase'' ''NO_CURRENT_PHASE''))
               else
                 (case getWorkflow env (wi_workflowId wi) of
                    None \<Rightarrow>
                      Some (st, Some (StateMachineError ''Workflow not found''
                                        ''WORKFLOW_NOT_FOUND''))
                  | Some workflow \<Rightarrow>
                      (case (getPhase env (wi_workflowId wi) cur,
                             getPhase env (wi_workflowId wi) targetPhaseId) of
                         (Some fromPhase, Some toPhase) \<Rightarrow>
                           (case find (\<lambda>t. tr_to t = targetPhaseId)
                                   (getAvailableTransitions env (wi_workflowId wi) cur) of
                              None \<Rightarrow>
                                Some (st, Some (TransitionError ''No valid transition found''
                                                  cur targetPhaseId))
                            | Some tr \<Rightarrow>
                                if \<not> canTransition env (now st)
                                       \<lparr>tc_workflowInstance = wi, tc_fromPhase = fromPhase,
                                        tc_toPhase = toPhase, tc_transition = tr,
                                        tc_metadata = ctx\<rparr> then
                                  Some (log_event (ValidatorCalled iid cur targetPhaseId) st,
                                        Some (TransitionError ''Transition validation failed''
                                                cur targetPhaseId))
                                else
                                  (case updateInstance env iid
                                          (upd_instance iid
                                             (\<lambda>wi. wi\<lparr>wi_currentPhaseId := Some targetPhaseId\<rparr>)
                                             (upd_phase iid cur
                                                (\<lambda>p. p\<lparr>pi_state := PCompleted,
                                                        pi_completedAt := Some (Suc (now st))\<rparr>)
                                                (log_event (ValidatorCalled iid cur targetPhaseId)
                                                   st))) of
                                     (st1, Some e) \<Rightarrow> Some (st1, Some e)
                                   | (st1, None) \<Rightarrow> execPhase iid targetPhaseId st1))
                       | _ \<Rightarrow>
                           Some (st, Some (TransitionError ''Invalid phase reference''
                                             cur targetPhaseId))))))"

text \<open>
  The two methods call each other, and a workflow whose phases name each other as next
  phases makes them do so forever. The recursion is therefore bounded by the depth of
  nested \<open>executePhase\<close> calls: \<open>None\<close> means that the bound was reached.
\<close>

primrec executePhase ::
  "nat \<Rightarrow> collaborators \<Rightarrow> string \<Rightarrow> string \<Rightarrow> sm_state \<Rightarrow> sm_result" where
  "executePhase 0 env = (\<lambda>iid pid st. None)"
| "executePhase (Suc k) env =
     executePhase_body (executePhase k env)
       (transitionToPhase_body (executePhase k env) env) env"

definition transitionToPhase ::
  "nat \<Rightarrow> collaborators \<Rightarrow> string \<Rightarrow> string \<Rightarrow> metadata option \<Rightarrow> sm_state \<Rightarrow> sm_result" where
  "transitionToPhase k env = transitionToPhase_body (executePhase k env) env"

text \<open>
  \<open>startWorkflow\<close>. The argument \<open>iid\<close> is the id drawn by \<open>randomUUID()\<close>. The value
  returned is the reference to the new instance, that is, its id.
\<close>

definition initial_phaseStates :: "workflow \<Rightarrow> (string \<rightharpoonup> phase_instance)" where
  "initial_phaseStates workflow =
     fold (\<lambda>phase m. m(ph_id phase \<mapsto> new_phase_instance (ph_id phase)))
       (wf_phases workflow) Map.empty"

definition new_instance ::
  "workflow \<Rightarrow> string \<Rightarrow> string \<Rightarrow> metadata option \<Rightarrow> nat \<Rightarrow> workflow_instance" where
  "new_instance workflow iid workflowId initialData t =
     \<lparr>wi_id = iid, wi_workflowId = workflowId, wi_name = wf_name workflow,
      wi_state = MRunning, wi_currentPhaseId = Some (wf_initialPhase workflow),
      wi_phaseStates = initial_phaseStates workflow, wi_startedAt = t,
      wi_completedAt = None, wi_error = None, wi_metadata = initialData\<rparr>"

definition saveInstance :: "collaborators \<Rightarrow> string \<Rightarrow> sm_state \<Rightarrow> sm_state \<times> js_error option" where
  "saveInstance env iid st =
     (if enablePersistence (config env) then
        (case persistence env of
           None \<Rightarrow> (st, None)
         | Some ps \<Rightarrow>
             (case instances st iid of
                None \<Rightarrow> (st, None)
              | Some wi \<Rightarrow> (st, saveWorkflowInstance ps (now st) wi)))
      else (st, None))"


section \<open>Notions used in the results about the scheduler\<close>

text \<open>
  In a record of events: a task id has been marked \<open>completed\<close> or \<open>skipped\<close>; a task with
  that id has been started.
\<close>

definition resolved_in :: "event list \<Rightarrow> string \<Rightarrow> bool" where
  "resolved_in es d = (TaskCompleted d \<in> set es \<or> TaskSkipped d \<in> set es)"

definition begun_in :: "event list \<Rightarrow> string \<Rightarrow> bool" where
  "begun_in es k = (\<exists>n tk. TaskStarted n tk \<in> set es \<and> t_id tk = k)"

text \<open>
  Every start in the record comes after each dependency of the started task was resolved
  and begun.
\<close>

definition deps_ready :: "event list \<Rightarrow> bool" where
  "deps_ready es =
     (\<forall>pre n tk post d. es = pre @ TaskStarted n tk # post \<longrightarrow> d \<in> set (dependencies tk)
        \<longrightarrow> resolved_in pre d \<and> begun_in pre d)"

text \<open>Shorthands for the outcomes the scheduler classifies.\<close>

definition has_instance :: "sched \<Rightarrow> string \<Rightarrow> bool" where
  "has_instance s k = (sc_taskStates s k \<noteq> None)"

definition settle_event :: "task \<times> (js_error + jsval) \<Rightarrow> event" where
  "settle_event x =
     (if isl (snd x) then TaskFailed (t_id (fst x)) else TaskCompleted (t_id (fst x)))"

definition tolerated :: "task \<times> (js_error + jsval) \<Rightarrow> bool" where
  "tolerated x = (isl (snd x) \<and> \<not> t_required (fst x))"

definition fatal :: "task \<times> (js_error + jsval) \<Rightarrow> bool" where
  "fatal x = (isl (snd x) \<and> t_required (fst x))"

text \<open>
  What a task instance looks like after its call settled, and after the scheduler
  classified the outcome.
\<close>

definition settled_as :: "task \<times> (js_error + jsval) \<Rightarrow> task_instance \<Rightarrow> bool" where
  "settled_as x ti =
     (case snd x of
        Inr r \<Rightarrow> ti_state ti = TCompleted \<and> ti_result ti = r
      | Inl e \<Rightarrow> ti_state ti = TFailed \<and> ti_error ti = Some e)"

definition classified_as :: "task \<times> (js_error + jsval) \<Rightarrow> task_instance \<Rightarrow> bool" where
  "classified_as x ti =
     (case snd x of
        Inr r \<Rightarrow> ti_state ti = TCompleted \<and> ti_result ti = r
      | Inl e \<Rightarrow> ti_state ti = (if t_required (fst x) then TFailed else TSkipped)
                 \<and> ti_error ti = Some e)"

text \<open>
  The invariants of the loop, between two passes. The first relates the two sets and the
  record of events; the second, which needs distinct task ids, relates the record of events
  and the task instances.
\<close>

definition sched_inv :: "task_executor \<Rightarrow> metadata option \<Rightarrow> phase \<Rightarrow> sched \<Rightarrow> bool" where
  "sched_inv te md ph s \<longleftrightarrow>
     (\<forall>tk \<in> set (ph_tasks ph). has_instance s (t_id tk))
   \<and> (\<forall>d \<in> set (sc_executedTasks s). resolved_in (sc_events s) d \<and> begun_in (sc_events s) d)
   \<and> deps_ready (sc_events s)
   \<and> (\<forall>n tk. TaskStarted n tk \<in> set (sc_events s) \<longrightarrow>
         tk \<in> set (ph_tasks ph)
         \<and> (if fatal (tk, te n tk md) then t_id tk \<in> set (sc_failedTasks s)
            else t_id tk \<in> set (sc_executedTasks s)))
   \<and> (\<forall>k \<in> set (sc_failedTasks s).
         \<exists>n tk. TaskStarted n tk \<in> set (sc_events s) \<and> t_id tk = k \<and> fatal (tk, te n tk md))
   \<and> (\<forall>d. resolved_in (sc_events s) d \<longrightarrow> d \<in> set (sc_executedTasks s))
   \<and> (\<forall>n tk. TaskStarted n tk \<in> set (sc_events s) \<and> \<not> fatal (tk, te n tk md) \<longrightarrow>
         (if isl (te n tk md) then TaskSkipped (t_id tk) else TaskCompleted (t_id tk))
           \<in> set (sc_events s))"

definition state_inv :: "task_executor \<Rightarrow> metadata option \<Rightarrow> phase \<Rightarrow> sched \<Rightarrow> bool" where
  "state_inv te md ph s \<longleftrightarrow>
     (\<forall>n tk. TaskStarted n tk \<in> set (sc_events s) \<longrightarrow>
        (\<exists>ti. sc_taskStates s (t_id tk) = Some ti \<and> classified_as (tk, te n tk md) ti))
   \<and> set (sc_executedTasks s) \<inter> set (sc_failedTasks s) = {}
   \<and> distinct (sc_executedTasks s) \<and> distinct (sc_failedTasks s)
   \<and> set (sc_executedTasks s) \<union> set (sc_failedTasks s) \<subseteq> t_id ` set (ph_tasks ph)"

text \<open>The scheduler state in which the loop of \<open>executePhase\<close> stops.\<close>

definition final_sched :: "task_executor \<Rightarrow> metadata option \<Rightarrow> phase \<Rightarrow> phase_instance \<Rightarrow> nat \<Rightarrow> sched" where
  "final_sched te md ph p clk = fst (schedule te md ph (init_sched ph p clk))"

text \<open>
  A dependency graph that stays inside the phase and has no cycle: every dependency names a
  task of the phase, and some ranking of the ids decreases along every dependency.
\<close>

definition acyclic_deps :: "(string \<Rightarrow> nat) \<Rightarrow> phase \<Rightarrow> bool" where
  "acyclic_deps rank ph \<longleftrightarrow>
     (\<forall>tk \<in> set (ph_tasks ph). \<forall>d \<in> set (dependencies tk).
        d \<in> t_id ` set (ph_tasks ph) \<and> rank d < rank (t_id tk))"

section \<open>Notions used in the results about the state machine\<close>

text \<open>
  What every step of the state machine preserves: the log only grows, no instance is
  added or removed, and an instance keeps its id, its workflow, its metadata and the ids
  of its phase instances.
\<close>

definition evolves :: "sm_state \<Rightarrow> sm_state \<Rightarrow> bool" where
  "evolves st st' \<longleftrightarrow>
     (\<exists>tail. sm_log st' = sm_log st @ tail)
   \<and> (\<forall>i wi. instances st i = Some wi \<longrightarrow>
         (\<exists>wi'. instances st' i = Some wi'
            \<and> wi_workflowId wi' = wi_workflowId wi \<and> wi_id wi' = wi_id wi
            \<and> wi_metadata wi' = wi_metadata wi
            \<and> dom (wi_phaseStates wi') = dom (wi_phaseStates wi)))
   \<and> (\<forall>i. instances st i = None \<longrightarrow> instances st' i = None)"

text \<open>The state in which \<open>transitionToPhase\<close> hands over to \<open>executePhase\<close>.\<close>

definition moved_state :: "string \<Rightarrow> string \<Rightarrow> string \<Rightarrow> sm_state \<Rightarrow> sm_state" where
  "moved_state iid cur target st =
     upd_instance iid (\<lambda>wi. wi\<lparr>wi_currentPhaseId := Some target\<rparr>)
       (upd_phase iid cur
          (\<lambda>p. p\<lparr>pi_state := PCompleted, pi_completedAt := Some (Suc (now st))\<rparr>)
          (log_event (ValidatorCalled iid cur target) st))"

text \<open>A persistence layer, if there is one, that never throws.\<close>

definition quiet_persistence :: "collaborators \<Rightarrow> bool" where
  "quiet_persistence env \<longleftrightarrow>
     (\<forall>ps. persistence env = Some ps \<longrightarrow>
        (\<forall>n wi. saveWorkflowInstance ps n wi = None)
        \<and> (\<forall>n i wi. updateWorkflowInstance ps n i wi = None))"

definition is_StateMachineError :: "js_error \<Rightarrow> bool" where
  "is_StateMachineError e = (case e of StateMachineError m c \<Rightarrow> True | _ \<Rightarrow> False)"

text \<open>What the phase executor and the bookkeeping around it leave alone in an instance.\<close>

definition same_instance :: "workflow_instance \<Rightarrow> workflow_instance \<Rightarrow> bool" where
  "same_instance wi wi' \<longleftrightarrow>
     wi_state wi' = wi_state wi \<and> wi_metadata wi' = wi_metadata wi
   \<and> wi_workflowId wi' = wi_workflowId wi \<and> wi_id wi' = wi_id wi
   \<and> wi_error wi' = wi_error wi \<and> wi_currentPhaseId wi' = wi_currentPhaseId wi
   \<and> dom (wi_phaseStates wi') = dom (wi_phaseStates wi)"









section \<open>Example inputs\<close>

text \<open>
  The phase, the phase instance and the task-executor mocks of the unit tests of the phase
  executor, a phase with a cycle beside an independent task, and an approval task whose
  approver says no.
\<close>

definition example_task :: "string \<Rightarrow> string \<Rightarrow> bool \<Rightarrow> string list option \<Rightarrow> task" where
  "example_task i ty rq ds =
     \<lparr>t_id = i, t_type = ty, t_required = rq, t_dependencies = ds,
      t_assignee = None, t_outputs = None, t_tools = None\<rparr>"

definition test_phase :: phase where
  "test_phase =
     \<lparr>ph_id = ''test-phase'',
      ph_tasks = [example_task ''task1'' ''manual'' True None,
                  example_task ''task2'' ''automated'' False (Some [''task1'']),
                  example_task ''task3'' ''review'' True (Some [''task2''])],
      ph_nextPhases = [''next-phase'']\<rparr>"

definition test_phase_instance :: phase_instance where
  "test_phase_instance =
     \<lparr>pi_phaseId = ''test-phase'', pi_state = PActive, pi_taskStates = Map.empty,
      pi_startedAt = None, pi_completedAt = None, pi_error = None, pi_retryCount = 0\<rparr>"

definition te_success :: task_executor where
  "te_success n tk md = Inr (JObj [(''status'', JStr ''success'')])"

definition te_task2_rejects :: task_executor where
  "te_task2_rejects n tk md =
     (if t_id tk = ''task2'' then Inl (JsError ''Optional task failed'')
      else Inr (JObj [(''status'', JStr ''success'')]))"

definition te_task1_rejects :: task_executor where
  "te_task1_rejects n tk md =
     (if t_id tk = ''task1'' then Inl (JsError ''Required task failed'')
      else Inr (JObj [(''status'', JStr ''success'')]))"

definition test_rank :: "string \<Rightarrow> nat" where
  "test_rank k = (if k = ''task1'' then 0 else if k = ''task2'' then 1 else 2)"



definition approval_phase :: phase where
  "approval_phase =
     \<lparr>ph_id = ''release'',
      ph_tasks = [example_task ''sign-off'' ''approval'' True None],
      ph_nextPhases = []\<rparr>"

definition rejecting_metadata :: metadata where
  "rejecting_metadata =
     \<lparr>md_completedTasks = None, md_approvedReviews = None, md_approvedTasks = None,
      md_autoApprove = JUndefined, md_approved = JUndefined,
      md_approvalDecisions = Some [(''sign-off'', False)]\<rparr>"

definition automated_completed_task :: task where
  "automated_completed_task =
     \<lparr>t_id = ''task1'', t_type = ''automated'', t_required = True,
      t_dependencies = None, t_assignee = None, t_outputs = None, t_tools = None\<rparr>"

definition status_completed_instance :: task_instance where
  "status_completed_instance =
     \<lparr>ti_taskId = ''task1'', ti_state = TCompleted, ti_startedAt = None,
      ti_completedAt = None, ti_result = JObj [(''status'', JStr ''completed'')],
      ti_error = None, ti_retryCount = 0\<rparr>"

definition rollback_example :: phase_instance where
  "rollback_example =
     \<lparr>pi_phaseId = ''test-phase'', pi_state = PFailed,
      pi_taskStates =
        [''task1'' \<mapsto> status_completed_instance\<lparr>ti_retryCount := 2\<rparr>,
         ''task2'' \<mapsto> status_completed_instance\<lparr>ti_taskId := ''task2'', ti_state := TFailed,
                        ti_error := Some (JsError ''boom'')\<rparr>],
      pi_startedAt = Some 0, pi_completedAt = Some 1,
      pi_error = Some (JsError ''boom''), pi_retryCount = 1\<rparr>"

text \<open>
  The workflow of the unit tests of the state machine (two phases, one transition), a
  workflow whose first phase declares two next phases, a workflow with a single phase, a
  workflow whose initial phase is none of its phases, a workflow whose two phases name each
  other as next phase, and collaborators over such a workflow: a provider that knows this one workflow, a validator that agrees, a phase
  executor whose outcome is given, no persistence layer.
\<close>

definition mock_phase :: "string \<Rightarrow> string list \<Rightarrow> phase" where
  "mock_phase i nxt = \<lparr>ph_id = i, ph_tasks = [], ph_nextPhases = nxt\<rparr>"

definition mock_transition :: "string \<Rightarrow> string \<Rightarrow> transition" where
  "mock_transition a b =
     \<lparr>tr_from = a, tr_to = b, tr_conditions = [], tr_requiresApproval = False\<rparr>"

definition mock_workflow :: workflow where
  "mock_workflow =
     \<lparr>wf_id = ''test-workflow'', wf_name = ''Test Workflow'', wf_initialPhase = ''phase1'',
      wf_phases = [mock_phase ''phase1'' [''phase2''], mock_phase ''phase2'' []],
      wf_transitions = [mock_transition ''phase1'' ''phase2'']\<rparr>"

definition branching_workflow :: workflow where
  "branching_workflow =
     \<lparr>wf_id = ''test-workflow'', wf_name = ''Test Workflow'', wf_initialPhase = ''phase1'',
      wf_phases = [mock_phase ''phase1'' [''phase2'', ''phase3''], mock_phase ''phase2'' [],
                   mock_phase ''phase3'' []],
      wf_transitions = [mock_transition ''phase1'' ''phase2'',
                        mock_transition ''phase1'' ''phase3'']\<rparr>"

definition single_phase_workflow :: workflow where
  "single_phase_workflow =
     \<lparr>wf_id = ''test-workflow'', wf_name = ''Test Workflow'', wf_initialPhase = ''phase1'',
      wf_phases = [mock_phase ''phase1'' []], wf_transitions = []\<rparr>"



definition mock_collaborators ::
  "workflow \<Rightarrow> (nat \<Rightarrow> js_error option) \<Rightarrow> config \<Rightarrow> collaborators" where
  "mock_collaborators workflow outcome cfg =
     \<lparr>getWorkflow = (\<lambda>w. if w = wf_id workflow then Some workflow else None),
      getPhase = (\<lambda>w p. if w = wf_id workflow
                         then find (\<lambda>ph. ph_id ph = p) (wf_phases workflow) else None),
      getAvailableTransitions =
        (\<lambda>w p. if w = wf_id workflow
               then filter (\<lambda>t. tr_from t = p) (wf_transitions workflow) else []),
      canTransition = (\<lambda>n c. True),
      phaseExecutor = (\<lambda>n wi ph p. (p, outcome n)),
      persistence = None,
      config = cfg\<rparr>"


definition test_config :: "nat option \<Rightarrow> config" where
  "test_config m = \<lparr>enablePersistence = True, enableRetries = True, maxRetries = m\<rparr>"

definition empty_state :: sm_state where
  "empty_state = \<lparr>instances = Map.empty, sm_log = []\<rparr>"

definition running_state :: "workflow \<Rightarrow> string \<Rightarrow> string \<Rightarrow> sm_state" where
  "running_state workflow iid cur =
     \<lparr>instances = [iid \<mapsto> (new_instance workflow iid (wf_id workflow) None 0)
                              \<lparr>wi_currentPhaseId := Some cur\<rparr>],
      sm_log = []\<rparr>"



section \<open>One pass of the scheduler\<close>

lemma resolved_in_append: "resolved_in es d \<Longrightarrow> resolved_in (es @ ext) d"
  by (auto simp: resolved_in_def)

lemma begun_in_append: "begun_in es d \<Longrightarrow> begun_in (es @ ext) d"
  by (auto simp: begun_in_def)

lemma deps_ready_append:
  assumes "deps_ready es"
    and "\<And>n tk d. TaskStarted n tk \<in> set ext \<Longrightarrow> d \<in> set (dependencies tk)
            \<Longrightarrow> resolved_in es d \<and> begun_in es d"
  shows "deps_ready (es @ ext)"
  unfolding deps_ready_def
proof (intro allI impI)
  fix pre n tk post d
  assume eq: "es @ ext = pre @ TaskStarted n tk # post" and d: "d \<in> set (dependencies tk)"
  from eq consider
      (left) us where "es = pre @ us" "us @ ext = TaskStarted n tk # post"
    | (right) us where "es @ us = pre" "ext = us @ TaskStarted n tk # post"
    by (auto simp: append_eq_append_conv2)
  then show "resolved_in pre d \<and> begun_in pre d"
  proof cases
    case left
    show ?thesis
    proof (cases us)
      case Nil
      with left have "TaskStarted n tk \<in> set ext" "pre = es" by auto
      with assms(2) d show ?thesis by blast
    next
      case (Cons u us')
      with left have "es = pre @ TaskStarted n tk # us'" by simp
      with assms(1) d show ?thesis unfolding deps_ready_def by blast
    qed
  next
    case right
    then have "TaskStarted n tk \<in> set ext" by simp
    with assms(2) d have "resolved_in es d \<and> begun_in es d" by blast
    with right(1) show ?thesis
      using resolved_in_append begun_in_append by blast
  qed
qed

lemma executeTask_begin_step:
  assumes "executeTask_begin te md tk s = (s1, r)"
  shows "has_instance s1 k = has_instance s k"
    and "sc_events s1 = sc_events s @
           (if has_instance s (t_id tk) then [TaskStarted (sc_calls s) tk] else [])"
    and "has_instance s (t_id tk) \<Longrightarrow> r = te (sc_calls s) tk md"
    and "\<not> has_instance s (t_id tk) \<Longrightarrow> isl r"
  using assms by (auto simp: executeTask_begin_def has_instance_def split: option.splits if_splits)

lemma begin_all_has_instance:
  "begin_all te md tks s = (s1, rs) \<Longrightarrow> has_instance s1 k = has_instance s k"
proof (induction tks arbitrary: s s1 rs)
  case Nil
  then show ?case by simp
next
  case (Cons tk tks)
  obtain sa r where a: "executeTask_begin te md tk s = (sa, r)"
    by (cases "executeTask_begin te md tk s") auto
  obtain sb rs' where b: "begin_all te md tks sa = (sb, rs')"
    by (cases "begin_all te md tks sa") auto
  from Cons.prems a b have "s1 = sb" by simp
  with Cons.IH [OF b] executeTask_begin_step(1) [OF a] show ?case by simp
qed

lemma begin_all_events:
  "begin_all te md tks s = (s1, rs) \<Longrightarrow>
   \<exists>ext. sc_events s1 = sc_events s @ ext
     \<and> (\<forall>e \<in> set ext. \<exists>n tk. e = TaskStarted n tk \<and> (tk, te n tk md) \<in> set rs)
     \<and> (\<forall>x \<in> set rs. has_instance s (t_id (fst x)) \<longrightarrow>
           (\<exists>n. TaskStarted n (fst x) \<in> set ext \<and> snd x = te n (fst x) md))
     \<and> (\<forall>x \<in> set rs. \<not> has_instance s (t_id (fst x)) \<longrightarrow> isl (snd x))"
proof (induction tks arbitrary: s s1 rs)
  case Nil
  then show ?case by simp
next
  case (Cons tk tks)
  obtain sa r where a: "executeTask_begin te md tk s = (sa, r)"
    by (cases "executeTask_begin te md tk s") auto
  obtain sb rs' where b: "begin_all te md tks sa = (sb, rs')"
    by (cases "begin_all te md tks sa") auto
  from Cons.prems a b have s1: "s1 = sb" and rs: "rs = (tk, r) # rs'" by simp_all
  note st = executeTask_begin_step [OF a]
  from Cons.IH [OF b] obtain ext where
    e1: "sc_events sb = sc_events sa @ ext"
    and e2: "\<forall>e \<in> set ext. \<exists>n tk. e = TaskStarted n tk \<and> (tk, te n tk md) \<in> set rs'"
    and e3: "\<forall>x \<in> set rs'. has_instance sa (t_id (fst x)) \<longrightarrow>
           (\<exists>n. TaskStarted n (fst x) \<in> set ext \<and> snd x = te n (fst x) md)"
    and e4: "\<forall>x \<in> set rs'. \<not> has_instance sa (t_id (fst x)) \<longrightarrow> isl (snd x)"
    by blast
  define ext0 where
    "ext0 = (if has_instance s (t_id tk) then [TaskStarted (sc_calls s) tk] else [])"
  have "sc_events s1 = sc_events s @ (ext0 @ ext)"
    using e1 st(2) s1 by (simp add: ext0_def)
  moreover have "\<forall>e \<in> set (ext0 @ ext). \<exists>n tk. e = TaskStarted n tk \<and> (tk, te n tk md) \<in> set rs"
  proof
    fix e assume "e \<in> set (ext0 @ ext)"
    then consider "e \<in> set ext0" | "e \<in> set ext" by auto
    then show "\<exists>n tk. e = TaskStarted n tk \<and> (tk, te n tk md) \<in> set rs"
    proof cases
      case 1
      then have "has_instance s (t_id tk)" "e = TaskStarted (sc_calls s) tk"
        by (auto simp: ext0_def split: if_splits)
      with st(3) rs show ?thesis by auto
    next
      case 2
      with e2 rs show ?thesis by fastforce
    qed
  qed
  moreover have "\<forall>x \<in> set rs. has_instance s (t_id (fst x)) \<longrightarrow>
           (\<exists>n. TaskStarted n (fst x) \<in> set (ext0 @ ext) \<and> snd x = te n (fst x) md)"
  proof (intro ballI impI)
    fix x assume x: "x \<in> set rs" and d: "has_instance s (t_id (fst x))"
    show "\<exists>n. TaskStarted n (fst x) \<in> set (ext0 @ ext) \<and> snd x = te n (fst x) md"
    proof (cases "x = (tk, r)")
      case True
      with d st(3) show ?thesis by (auto simp: ext0_def)
    next
      case False
      with x rs have "x \<in> set rs'" by simp
      moreover from d have "has_instance sa (t_id (fst x))" by (simp add: st(1))
      ultimately obtain n where "TaskStarted n (fst x) \<in> set ext" "snd x = te n (fst x) md"
        using e3 by blast
      then show ?thesis by auto
    qed
  qed
  moreover have "\<forall>x \<in> set rs. \<not> has_instance s (t_id (fst x)) \<longrightarrow> isl (snd x)"
  proof (intro ballI impI)
    fix x assume x: "x \<in> set rs" and d: "\<not> has_instance s (t_id (fst x))"
    show "isl (snd x)"
    proof (cases "x = (tk, r)")
      case True
      with d st(4) show ?thesis by simp
    next
      case False
      with x rs have "x \<in> set rs'" by simp
      moreover from d have "\<not> has_instance sa (t_id (fst x))" by (simp add: st(1))
      ultimately show ?thesis using e4 by blast
    qed
  qed
  ultimately show ?case by blast
qed

lemma executeTask_settle_step:
  shows "has_instance (executeTask_settle x s) k = has_instance s k"
    and "sc_events (executeTask_settle x s) = sc_events s @
           (if has_instance s (t_id (fst x)) then [settle_event x] else [])"
  by (auto simp: executeTask_settle_def has_instance_def settle_event_def
      split: option.splits sum.splits)

lemma settle_fold_has_instance:
  "has_instance (fold executeTask_settle rs s) k = has_instance s k"
  by (induction rs arbitrary: s) (simp_all add: executeTask_settle_step(1))

lemma settle_fold_events:
  "sc_events (fold executeTask_settle rs s)
     = sc_events s @ map settle_event (filter (\<lambda>x. has_instance s (t_id (fst x))) rs)"
proof (induction rs arbitrary: s)
  case Nil
  show ?case by simp
next
  case (Cons x rs)
  show ?case
    by (simp add: Cons.IH [of "executeTask_settle x s"] executeTask_settle_step)
qed

lemma classify_step:
  shows "has_instance (classify x s) k = has_instance s k"
    and "sc_events (classify x s) = sc_events s @
           (if tolerated x \<and> has_instance s (t_id (fst x))
            then [TaskSkipped (t_id (fst x))] else [])"
    and "set (sc_executedTasks (classify x s)) = set (sc_executedTasks s) \<union>
           (if fatal x then {} else {t_id (fst x)})"
    and "set (sc_failedTasks (classify x s)) = set (sc_failedTasks s) \<union>
           (if fatal x then {t_id (fst x)} else {})"
  by (auto simp: classify_def set_add_def has_instance_def tolerated_def fatal_def
      split: option.splits sum.splits)

lemma classify_fold_has_instance:
  "has_instance (fold classify rs s) k = has_instance s k"
  by (induction rs arbitrary: s) (simp_all add: classify_step(1))

lemma classify_fold_sets:
  "set (sc_executedTasks (fold classify rs s))
     = set (sc_executedTasks s) \<union> (\<lambda>x. t_id (fst x)) ` {x \<in> set rs. \<not> fatal x}"
  "set (sc_failedTasks (fold classify rs s))
     = set (sc_failedTasks s) \<union> (\<lambda>x. t_id (fst x)) ` {x \<in> set rs. fatal x}"
  by (induction rs arbitrary: s) (auto simp: classify_step)

lemma classify_fold_events:
  "sc_events (fold classify rs s)
     = sc_events s @ map (\<lambda>x. TaskSkipped (t_id (fst x)))
         (filter (\<lambda>x. tolerated x \<and> has_instance s (t_id (fst x))) rs)"
proof (induction rs arbitrary: s)
  case Nil
  show ?case by simp
next
  case (Cons x rs)
  show ?case
    by (simp add: Cons.IH [of "classify x s"] classify_step)
qed

lemma executeTask_begin_other:
  "executeTask_begin te md tk s = (s1, r) \<Longrightarrow> k \<noteq> t_id tk \<Longrightarrow>
     sc_taskStates s1 k = sc_taskStates s k"
  by (auto simp: executeTask_begin_def split: option.splits)

lemma begin_all_other:
  "begin_all te md tks s = (s1, rs) \<Longrightarrow> k \<notin> t_id ` set tks \<Longrightarrow>
     sc_taskStates s1 k = sc_taskStates s k"
proof (induction tks arbitrary: s s1 rs)
  case Nil
  then show ?case by simp
next
  case (Cons tk tks)
  obtain sa r where a: "executeTask_begin te md tk s = (sa, r)"
    by (cases "executeTask_begin te md tk s") auto
  obtain sb rs' where b: "begin_all te md tks sa = (sb, rs')"
    by (cases "begin_all te md tks sa") auto
  from Cons.prems a b have "s1 = sb" by simp
  moreover from Cons.prems have "k \<noteq> t_id tk" "k \<notin> t_id ` set tks" by auto
  ultimately show ?case
    using Cons.IH [OF b] executeTask_begin_other [OF a] by simp
qed

lemma executeTask_settle_other:
  "k \<noteq> t_id (fst x) \<Longrightarrow> sc_taskStates (executeTask_settle x s) k = sc_taskStates s k"
  by (auto simp: executeTask_settle_def split: option.splits sum.splits)

lemma settle_fold_other:
  "k \<notin> (\<lambda>x. t_id (fst x)) ` set rs \<Longrightarrow>
     sc_taskStates (fold executeTask_settle rs s) k = sc_taskStates s k"
  by (induction rs arbitrary: s) (auto simp: executeTask_settle_other)

lemma executeTask_settle_own:
  "has_instance s (t_id (fst x)) \<Longrightarrow>
     \<exists>ti. sc_taskStates (executeTask_settle x s) (t_id (fst x)) = Some ti \<and> settled_as x ti"
  by (auto simp: executeTask_settle_def has_instance_def settled_as_def
      split: option.splits sum.splits)

lemma settle_fold_own:
  "distinct (map (\<lambda>x. t_id (fst x)) rs) \<Longrightarrow> x \<in> set rs \<Longrightarrow> has_instance s (t_id (fst x)) \<Longrightarrow>
     \<exists>ti. sc_taskStates (fold executeTask_settle rs s) (t_id (fst x)) = Some ti
        \<and> settled_as x ti"
proof (induction rs arbitrary: s)
  case Nil
  then show ?case by simp
next
  case (Cons y rs)
  show ?case
  proof (cases "x = y")
    case True
    from Cons.prems(1) True have "t_id (fst x) \<notin> (\<lambda>x. t_id (fst x)) ` set rs" by auto
    then have "sc_taskStates (fold executeTask_settle rs (executeTask_settle y s)) (t_id (fst x))
        = sc_taskStates (executeTask_settle y s) (t_id (fst x))"
      by (rule settle_fold_other)
    with executeTask_settle_own [OF Cons.prems(3)] True show ?thesis by simp
  next
    case False
    with Cons.prems have "x \<in> set rs" "distinct (map (\<lambda>x. t_id (fst x)) rs)" by auto
    moreover have "has_instance (executeTask_settle y s) (t_id (fst x))"
      using Cons.prems(3) by (simp add: executeTask_settle_step(1))
    ultimately show ?thesis using Cons.IH by simp
  qed
qed

lemma classify_other:
  "k \<noteq> t_id (fst x) \<Longrightarrow> sc_taskStates (classify x s) k = sc_taskStates s k"
  by (auto simp: classify_def split: option.splits sum.splits)

lemma classify_fold_other:
  "k \<notin> (\<lambda>x. t_id (fst x)) ` set rs \<Longrightarrow> sc_taskStates (fold classify rs s) k = sc_taskStates s k"
  by (induction rs arbitrary: s) (auto simp: classify_other)

lemma classify_own:
  "sc_taskStates s (t_id (fst x)) = Some ti \<Longrightarrow> settled_as x ti \<Longrightarrow>
     \<exists>ti'. sc_taskStates (classify x s) (t_id (fst x)) = Some ti' \<and> classified_as x ti'"
  by (auto simp: classify_def settled_as_def classified_as_def split: option.splits sum.splits)

lemma classify_fold_own:
  "distinct (map (\<lambda>x. t_id (fst x)) rs) \<Longrightarrow> x \<in> set rs \<Longrightarrow>
   sc_taskStates s (t_id (fst x)) = Some ti \<Longrightarrow> settled_as x ti \<Longrightarrow>
     \<exists>ti'. sc_taskStates (fold classify rs s) (t_id (fst x)) = Some ti' \<and> classified_as x ti'"
proof (induction rs arbitrary: s)
  case Nil
  then show ?case by simp
next
  case (Cons y rs)
  show ?case
  proof (cases "x = y")
    case True
    from Cons.prems(1) True have "t_id (fst x) \<notin> (\<lambda>x. t_id (fst x)) ` set rs" by auto
    then have "sc_taskStates (fold classify rs (classify y s)) (t_id (fst x))
        = sc_taskStates (classify y s) (t_id (fst x))"
      by (rule classify_fold_other)
    with classify_own [OF Cons.prems(3,4)] True show ?thesis by simp
  next
    case False
    with Cons.prems have x: "x \<in> set rs" and d: "distinct (map (\<lambda>x. t_id (fst x)) rs)" by auto
    from Cons.prems(1) have ny: "t_id (fst y) \<notin> (\<lambda>x. t_id (fst x)) ` set rs" by simp
    have "t_id (fst x) \<noteq> t_id (fst y)"
    proof
      assume eq: "t_id (fst x) = t_id (fst y)"
      from x have "t_id (fst x) \<in> (\<lambda>x. t_id (fst x)) ` set rs" by (rule imageI)
      with eq ny show False by simp
    qed
    then have "sc_taskStates (classify y s) (t_id (fst x)) = Some ti"
      using Cons.prems(3) by (simp add: classify_other)
    from Cons.IH [OF d x this Cons.prems(4)] show ?thesis by simp
  qed
qed

text \<open>What one pass over a frontier does, when every task of it has an instance.\<close>

lemma run_frontier_decompose:
  assumes inst: "\<forall>tk \<in> set tks. has_instance s (t_id tk)"
  obtains rs ext where
    "map fst rs = tks"
    "sc_events (run_frontier te md tks s)
       = sc_events s @ ext @ map settle_event rs
           @ map (\<lambda>x. TaskSkipped (t_id (fst x))) (filter tolerated rs)"
    "\<forall>e \<in> set ext. \<exists>n tk. e = TaskStarted n tk \<and> (tk, te n tk md) \<in> set rs"
    "\<forall>x \<in> set rs. \<exists>n. TaskStarted n (fst x) \<in> set ext \<and> snd x = te n (fst x) md"
    "set (sc_executedTasks (run_frontier te md tks s))
       = set (sc_executedTasks s) \<union> (\<lambda>x. t_id (fst x)) ` {x \<in> set rs. \<not> fatal x}"
    "set (sc_failedTasks (run_frontier te md tks s))
       = set (sc_failedTasks s) \<union> (\<lambda>x. t_id (fst x)) ` {x \<in> set rs. fatal x}"
    "\<And>k. has_instance (run_frontier te md tks s) k = has_instance s k"
    "\<And>k. k \<notin> t_id ` set tks \<Longrightarrow>
        sc_taskStates (run_frontier te md tks s) k = sc_taskStates s k"
    "distinct (map t_id tks) \<Longrightarrow>
       \<forall>x \<in> set rs. \<exists>ti. sc_taskStates (run_frontier te md tks s) (t_id (fst x)) = Some ti
          \<and> classified_as x ti"
proof -
  obtain s1 rs where b: "begin_all te md tks s = (s1, rs)"
    by (cases "begin_all te md tks s") auto
  define s2 where "s2 = fold executeTask_settle rs s1"
  have run: "run_frontier te md tks s = fold classify rs s2"
    by (simp add: run_frontier_def b s2_def)
  have tks: "map fst rs = tks"
    using b by (rule begin_all_tasks)
  then have fsts: "fst ` set rs = set tks"
    by (metis list.set_map)
  have "(\<lambda>x. t_id (fst x)) ` set rs = t_id ` (fst ` set rs)"
    by (simp add: image_image)
  with fsts have ids: "(\<lambda>x. t_id (fst x)) ` set rs = t_id ` set tks"
    by simp
  have h1: "\<And>k. has_instance s1 k = has_instance s k"
    using b by (rule begin_all_has_instance)
  have h2: "\<And>k. has_instance s2 k = has_instance s k"
    by (simp add: s2_def settle_fold_has_instance h1)
  have all_inst: "\<forall>x \<in> set rs. has_instance s (t_id (fst x))"
    using inst fsts by auto
  from begin_all_events [OF b] obtain ext where
    e1: "sc_events s1 = sc_events s @ ext"
    and e2: "\<forall>e \<in> set ext. \<exists>n tk. e = TaskStarted n tk \<and> (tk, te n tk md) \<in> set rs"
    and e3: "\<forall>x \<in> set rs. has_instance s (t_id (fst x)) \<longrightarrow>
           (\<exists>n. TaskStarted n (fst x) \<in> set ext \<and> snd x = te n (fst x) md)"
    by blast
  have f1: "filter (\<lambda>x. has_instance s1 (t_id (fst x))) rs = rs"
    using all_inst by (simp add: h1)
  have f2: "filter (\<lambda>x. tolerated x \<and> has_instance s2 (t_id (fst x))) rs = filter tolerated rs"
    using all_inst by (auto simp: h2 intro: filter_cong)
  have ev: "sc_events (run_frontier te md tks s)
       = sc_events s @ ext @ map settle_event rs
           @ map (\<lambda>x. TaskSkipped (t_id (fst x))) (filter tolerated rs)"
  proof -
    have "sc_events s2 = sc_events s @ ext @ map settle_event rs"
      by (simp add: s2_def settle_fold_events f1 e1)
    then show ?thesis
      by (simp add: run classify_fold_events f2)
  qed
  have sets2: "sc_executedTasks s2 = sc_executedTasks s" "sc_failedTasks s2 = sc_failedTasks s"
    using settle_sets [of rs s1] begin_all_sets [OF b] by (simp_all add: s2_def)
  have other: "\<And>k. k \<notin> t_id ` set tks \<Longrightarrow>
        sc_taskStates (run_frontier te md tks s) k = sc_taskStates s k"
    using ids by (simp add: run classify_fold_other s2_def settle_fold_other
        begin_all_other [OF b])
  have own: "\<forall>x \<in> set rs. \<exists>ti. sc_taskStates (run_frontier te md tks s) (t_id (fst x)) = Some ti
          \<and> classified_as x ti" if dist: "distinct (map t_id tks)"
  proof
    fix x assume x: "x \<in> set rs"
    from dist have d: "distinct (map (\<lambda>x. t_id (fst x)) rs)"
      by (simp add: tks [symmetric] comp_def)
    from x all_inst have "has_instance s1 (t_id (fst x))" by (simp add: h1)
    from settle_fold_own [OF d x this] obtain ti where
      "sc_taskStates s2 (t_id (fst x)) = Some ti" "settled_as x ti"
      by (auto simp: s2_def)
    from classify_fold_own [OF d x this] show
      "\<exists>ti. sc_taskStates (run_frontier te md tks s) (t_id (fst x)) = Some ti \<and> classified_as x ti"
      by (simp add: run)
  qed
  show ?thesis
  proof (rule that [of rs ext])
    show "map fst rs = tks" by (rule tks)
    show "sc_events (run_frontier te md tks s)
       = sc_events s @ ext @ map settle_event rs
           @ map (\<lambda>x. TaskSkipped (t_id (fst x))) (filter tolerated rs)" by (rule ev)
    show "\<forall>e \<in> set ext. \<exists>n tk. e = TaskStarted n tk \<and> (tk, te n tk md) \<in> set rs" by (rule e2)
    show "\<forall>x \<in> set rs. \<exists>n. TaskStarted n (fst x) \<in> set ext \<and> snd x = te n (fst x) md"
      using e3 all_inst by blast
    show "set (sc_executedTasks (run_frontier te md tks s))
       = set (sc_executedTasks s) \<union> (\<lambda>x. t_id (fst x)) ` {x \<in> set rs. \<not> fatal x}"
      by (simp add: run classify_fold_sets sets2)
    show "set (sc_failedTasks (run_frontier te md tks s))
       = set (sc_failedTasks s) \<union> (\<lambda>x. t_id (fst x)) ` {x \<in> set rs. fatal x}"
      by (simp add: run classify_fold_sets sets2)
    show "\<And>k. has_instance (run_frontier te md tks s) k = has_instance s k"
      by (simp add: run classify_fold_has_instance h2)
    show "\<And>k. k \<notin> t_id ` set tks \<Longrightarrow>
        sc_taskStates (run_frontier te md tks s) k = sc_taskStates s k" by (rule other)
    show "distinct (map t_id tks) \<Longrightarrow>
       \<forall>x \<in> set rs. \<exists>ti. sc_taskStates (run_frontier te md tks s) (t_id (fst x)) = Some ti
          \<and> classified_as x ti" by (rule own)
  qed
qed

lemma tasksToExecute_member:
  "tk \<in> set (tasksToExecute ph s) \<Longrightarrow>
     tk \<in> set (ph_tasks ph)
     \<and> t_id tk \<notin> set (sc_executedTasks s) \<and> t_id tk \<notin> set (sc_failedTasks s)
     \<and> set (dependencies tk) \<subseteq> set (sc_executedTasks s)"
  by (auto simp: tasksToExecute_def list_all_iff split: if_splits)

lemma new_events_started:
  "TaskStarted n tk \<in> set (ext @ map settle_event rs
            @ map (\<lambda>x. TaskSkipped (t_id (fst x))) (filter tolerated rs))
         \<longleftrightarrow> TaskStarted n tk \<in> set ext"
  by (auto simp: settle_event_def)

lemma new_events_completed:
  assumes "\<forall>e \<in> set ext. \<exists>n tk. e = TaskStarted n tk"
  shows "TaskCompleted d \<in> set (ext @ map settle_event rs
            @ map (\<lambda>x. TaskSkipped (t_id (fst x))) (filter tolerated rs))
         \<longleftrightarrow> (\<exists>x \<in> set rs. \<not> isl (snd x) \<and> t_id (fst x) = d)"
proof -
  have "TaskCompleted d \<notin> set ext"
    using assms by auto
  moreover have "TaskCompleted d \<notin> set (map (\<lambda>x. TaskSkipped (t_id (fst x))) (filter tolerated rs))"
    by auto
  moreover have "TaskCompleted d \<in> set (map settle_event rs)
      \<longleftrightarrow> (\<exists>x \<in> set rs. \<not> isl (snd x) \<and> t_id (fst x) = d)"
    by (auto simp: settle_event_def image_iff split: if_splits)
  ultimately show ?thesis by simp
qed

lemma new_events_skipped:
  assumes "\<forall>e \<in> set ext. \<exists>n tk. e = TaskStarted n tk"
  shows "TaskSkipped d \<in> set (ext @ map settle_event rs
            @ map (\<lambda>x. TaskSkipped (t_id (fst x))) (filter tolerated rs))
         \<longleftrightarrow> (\<exists>x \<in> set rs. tolerated x \<and> t_id (fst x) = d)"
proof -
  have "TaskSkipped d \<notin> set ext"
    using assms by auto
  moreover have "TaskSkipped d \<notin> set (map settle_event rs)"
    by (auto simp: settle_event_def)
  moreover have "TaskSkipped d \<in> set (map (\<lambda>x. TaskSkipped (t_id (fst x))) (filter tolerated rs))
      \<longleftrightarrow> (\<exists>x \<in> set rs. tolerated x \<and> t_id (fst x) = d)"
    by (simp add: image_iff Bex_def) blast
  ultimately show ?thesis by simp
qed

lemma not_fatal_cases: "\<not> fatal x \<longleftrightarrow> \<not> isl (snd x) \<or> tolerated x"
  by (auto simp: fatal_def tolerated_def)

lemma sched_inv_run_frontier:
  assumes inv: "sched_inv te md ph s"
  shows "sched_inv te md ph (run_frontier te md (tasksToExecute ph s) s)"
proof -
  define tks where "tks = tasksToExecute ph s"
  define s' where "s' = run_frontier te md tks s"
  note fr = tasksToExecute_member [of _ ph s, folded tks_def]
  from inv have i1: "\<forall>tk \<in> set (ph_tasks ph). has_instance s (t_id tk)"
    and i2: "\<forall>d \<in> set (sc_executedTasks s). resolved_in (sc_events s) d \<and> begun_in (sc_events s) d"
    and i3: "deps_ready (sc_events s)"
    and i4: "\<forall>n tk. TaskStarted n tk \<in> set (sc_events s) \<longrightarrow>
         tk \<in> set (ph_tasks ph)
         \<and> (if fatal (tk, te n tk md) then t_id tk \<in> set (sc_failedTasks s)
            else t_id tk \<in> set (sc_executedTasks s))"
    and i5: "\<forall>k \<in> set (sc_failedTasks s).
         \<exists>n tk. TaskStarted n tk \<in> set (sc_events s) \<and> t_id tk = k \<and> fatal (tk, te n tk md)"
    and i6: "\<forall>d. resolved_in (sc_events s) d \<longrightarrow> d \<in> set (sc_executedTasks s)"
    and i7: "\<forall>n tk. TaskStarted n tk \<in> set (sc_events s) \<and> \<not> fatal (tk, te n tk md) \<longrightarrow>
         (if isl (te n tk md) then TaskSkipped (t_id tk) else TaskCompleted (t_id tk))
           \<in> set (sc_events s)"
    by (simp_all add: sched_inv_def)
  have inst: "\<forall>tk \<in> set tks. has_instance s (t_id tk)"
    using fr i1 by blast
  obtain rs ext where
    tks: "map fst rs = tks"
    and ev: "sc_events s' = sc_events s @ ext @ map settle_event rs
           @ map (\<lambda>x. TaskSkipped (t_id (fst x))) (filter tolerated rs)"
    and ext: "\<forall>e \<in> set ext. \<exists>n tk. e = TaskStarted n tk \<and> (tk, te n tk md) \<in> set rs"
    and started: "\<forall>x \<in> set rs. \<exists>n. TaskStarted n (fst x) \<in> set ext \<and> snd x = te n (fst x) md"
    and ex: "set (sc_executedTasks s')
       = set (sc_executedTasks s) \<union> (\<lambda>x. t_id (fst x)) ` {x \<in> set rs. \<not> fatal x}"
    and fl: "set (sc_failedTasks s')
       = set (sc_failedTasks s) \<union> (\<lambda>x. t_id (fst x)) ` {x \<in> set rs. fatal x}"
    and hi: "\<And>k. has_instance s' k = has_instance s k"
    unfolding s'_def by (rule run_frontier_decompose [OF inst, of te md]) blast
  define new where "new = ext @ map settle_event rs
           @ map (\<lambda>x. TaskSkipped (t_id (fst x))) (filter tolerated rs)"
  have ev': "sc_events s' = sc_events s @ new"
    by (simp add: ev new_def)
  from ext have ext_st: "\<forall>e \<in> set ext. \<exists>n tk. e = TaskStarted n tk"
    by blast
  note nst = new_events_started [of _ _ ext rs, folded new_def]
  note ncp = new_events_completed [OF ext_st, where rs = rs, folded new_def]
  note nsk = new_events_skipped [OF ext_st, where rs = rs, folded new_def]
  have in_tks: "\<And>x. x \<in> set rs \<Longrightarrow> fst x \<in> set tks"
  proof -
    fix x :: "task \<times> (js_error + jsval)"
    assume "x \<in> set rs"
    then have "fst x \<in> fst ` set rs" by (rule imageI)
    then show "fst x \<in> set tks" by (simp add: tks [symmetric])
  qed
  have c1: "\<forall>tk \<in> set (ph_tasks ph). has_instance s' (t_id tk)"
    using i1 by (simp add: hi)
  have c2: "\<forall>d \<in> set (sc_executedTasks s'). resolved_in (sc_events s') d \<and> begun_in (sc_events s') d"
  proof
    fix d assume "d \<in> set (sc_executedTasks s')"
    then consider (old) "d \<in> set (sc_executedTasks s)"
      | (new) x where "x \<in> set rs" "\<not> fatal x" "d = t_id (fst x)"
      by (auto simp: ex)
    then show "resolved_in (sc_events s') d \<and> begun_in (sc_events s') d"
    proof cases
      case old
      with i2 show ?thesis
        by (simp add: ev' resolved_in_append begun_in_append)
    next
      case new
      from started new(1) obtain n where "TaskStarted n (fst x) \<in> set ext" by blast
      then have "TaskStarted n (fst x) \<in> set new" by (simp add: nst)
      then have b: "begun_in (sc_events s') d"
        unfolding begun_in_def ev' using new(3) by auto
      from new(2) have "\<not> isl (snd x) \<or> tolerated x" by (simp add: not_fatal_cases)
      then have "TaskCompleted d \<in> set new \<or> TaskSkipped d \<in> set new"
        using new(1,3) ncp nsk by blast
      then have "resolved_in (sc_events s') d"
        unfolding resolved_in_def ev' by auto
      with b show ?thesis by simp
    qed
  qed
  have c3: "deps_ready (sc_events s')"
    unfolding ev'
  proof (rule deps_ready_append [OF i3])
    fix n tk d
    assume "TaskStarted n tk \<in> set new" and d: "d \<in> set (dependencies tk)"
    then have "TaskStarted n tk \<in> set ext" by (simp add: nst)
    with ext have "(tk, te n tk md) \<in> set rs" by auto
    then have "tk \<in> set tks" using in_tks by force
    with fr d have "d \<in> set (sc_executedTasks s)" by blast
    with i2 show "resolved_in (sc_events s) d \<and> begun_in (sc_events s) d" by blast
  qed
  have c4: "\<forall>n tk. TaskStarted n tk \<in> set (sc_events s') \<longrightarrow>
         tk \<in> set (ph_tasks ph)
         \<and> (if fatal (tk, te n tk md) then t_id tk \<in> set (sc_failedTasks s')
            else t_id tk \<in> set (sc_executedTasks s'))"
  proof (intro allI impI)
    fix n tk assume "TaskStarted n tk \<in> set (sc_events s')"
    then consider (old) "TaskStarted n tk \<in> set (sc_events s)"
      | (new) "TaskStarted n tk \<in> set ext"
      by (auto simp: ev' nst)
    then show "tk \<in> set (ph_tasks ph)
         \<and> (if fatal (tk, te n tk md) then t_id tk \<in> set (sc_failedTasks s')
            else t_id tk \<in> set (sc_executedTasks s'))"
    proof cases
      case old
      with i4 show ?thesis by (auto simp: ex fl)
    next
      case new
      with ext have x: "(tk, te n tk md) \<in> set rs" by auto
      then have "tk \<in> set tks" using in_tks by force
      with fr have "tk \<in> set (ph_tasks ph)" by blast
      moreover have "fatal (tk, te n tk md) \<Longrightarrow> t_id tk \<in> set (sc_failedTasks s')"
        using x by (force simp: fl)
      moreover have "\<not> fatal (tk, te n tk md) \<Longrightarrow> t_id tk \<in> set (sc_executedTasks s')"
        using x by (force simp: ex)
      ultimately show ?thesis by simp
    qed
  qed
  have c5: "\<forall>k \<in> set (sc_failedTasks s').
         \<exists>n tk. TaskStarted n tk \<in> set (sc_events s') \<and> t_id tk = k \<and> fatal (tk, te n tk md)"
  proof
    fix k assume "k \<in> set (sc_failedTasks s')"
    then consider (old) "k \<in> set (sc_failedTasks s)"
      | (new) x where "x \<in> set rs" "fatal x" "k = t_id (fst x)"
      by (auto simp: fl)
    then show "\<exists>n tk. TaskStarted n tk \<in> set (sc_events s') \<and> t_id tk = k \<and> fatal (tk, te n tk md)"
    proof cases
      case old
      with i5 show ?thesis by (fastforce simp: ev')
    next
      case new
      from started new(1) obtain n where
        n: "TaskStarted n (fst x) \<in> set ext" "snd x = te n (fst x) md" by blast
      from n(2) have "x = (fst x, te n (fst x) md)" by (metis prod.collapse)
      with new(2) have "fatal (fst x, te n (fst x) md)" by simp
      moreover from n(1) have "TaskStarted n (fst x) \<in> set (sc_events s')"
        by (simp add: ev' nst)
      ultimately show ?thesis using new(3) by blast
    qed
  qed
  have c6: "\<forall>d. resolved_in (sc_events s') d \<longrightarrow> d \<in> set (sc_executedTasks s')"
  proof (intro allI impI)
    fix d assume "resolved_in (sc_events s') d"
    then consider (old) "resolved_in (sc_events s) d"
      | (new) "TaskCompleted d \<in> set new \<or> TaskSkipped d \<in> set new"
      by (auto simp: resolved_in_def ev')
    then show "d \<in> set (sc_executedTasks s')"
    proof cases
      case old
      with i6 show ?thesis by (simp add: ex)
    next
      case new
      then obtain x where "x \<in> set rs" "\<not> isl (snd x) \<or> tolerated x" "t_id (fst x) = d"
        using ncp nsk by blast
      then have "x \<in> set rs" "\<not> fatal x" "t_id (fst x) = d"
        by (simp_all add: not_fatal_cases)
      then show ?thesis by (force simp: ex)
    qed
  qed
  have c7: "\<forall>n tk. TaskStarted n tk \<in> set (sc_events s') \<and> \<not> fatal (tk, te n tk md) \<longrightarrow>
         (if isl (te n tk md) then TaskSkipped (t_id tk) else TaskCompleted (t_id tk))
           \<in> set (sc_events s')"
  proof (intro allI impI)
    fix n tk
    assume a: "TaskStarted n tk \<in> set (sc_events s') \<and> \<not> fatal (tk, te n tk md)"
    then consider (old) "TaskStarted n tk \<in> set (sc_events s)"
      | (new) "TaskStarted n tk \<in> set ext"
      by (auto simp: ev' nst)
    then show "(if isl (te n tk md) then TaskSkipped (t_id tk) else TaskCompleted (t_id tk))
           \<in> set (sc_events s')"
    proof cases
      case old
      with i7 a have "(if isl (te n tk md) then TaskSkipped (t_id tk)
          else TaskCompleted (t_id tk)) \<in> set (sc_events s)" by blast
      then show ?thesis by (simp add: ev')
    next
      case new
      with ext have x: "(tk, te n tk md) \<in> set rs" by auto
      show ?thesis
      proof (cases "isl (te n tk md)")
        case True
        with a have "tolerated (tk, te n tk md)" by (simp add: fatal_def tolerated_def)
        with x have "\<exists>x \<in> set rs. tolerated x \<and> t_id (fst x) = t_id tk" by force
        then have "TaskSkipped (t_id tk) \<in> set new" by (simp add: nsk)
        with True show ?thesis by (simp add: ev')
      next
        case False
        with x have "\<exists>x \<in> set rs. \<not> isl (snd x) \<and> t_id (fst x) = t_id tk" by force
        then have "TaskCompleted (t_id tk) \<in> set new" by (simp add: ncp)
        with False show ?thesis by (simp add: ev')
      qed
    qed
  qed
  from c1 c2 c3 c4 c5 c6 c7 show ?thesis
    unfolding sched_inv_def s'_def tks_def by blast
qed

lemma distinct_set_add: "distinct xs \<Longrightarrow> distinct (set_add x xs)"
  by (simp add: set_add_def)

lemma classify_distinct:
  "distinct (sc_executedTasks s) \<and> distinct (sc_failedTasks s) \<Longrightarrow>
   distinct (sc_executedTasks (classify x s)) \<and> distinct (sc_failedTasks (classify x s))"
  by (auto simp: classify_def distinct_set_add split: sum.splits option.splits)

lemma classify_fold_distinct:
  "distinct (sc_executedTasks s) \<and> distinct (sc_failedTasks s) \<Longrightarrow>
   distinct (sc_executedTasks (fold classify rs s))
   \<and> distinct (sc_failedTasks (fold classify rs s))"
proof (induction rs arbitrary: s)
  case Nil
  then show ?case by simp
next
  case (Cons x rs)
  from Cons.IH [OF classify_distinct [OF Cons.prems]] show ?case by simp
qed

lemma run_frontier_distinct:
  assumes "distinct (sc_executedTasks s) \<and> distinct (sc_failedTasks s)"
  shows "distinct (sc_executedTasks (run_frontier te md tks s))
   \<and> distinct (sc_failedTasks (run_frontier te md tks s))"
proof -
  obtain s1 rs where b: "begin_all te md tks s = (s1, rs)"
    by (cases "begin_all te md tks s") auto
  have "distinct (sc_executedTasks (fold executeTask_settle rs s1))
      \<and> distinct (sc_failedTasks (fold executeTask_settle rs s1))"
    using assms settle_sets [of rs s1] begin_all_sets [OF b] by simp
  from classify_fold_distinct [OF this] show ?thesis
    by (simp add: run_frontier_def b)
qed

lemma tasksToExecute_distinct:
  "distinct (map t_id (ph_tasks ph)) \<Longrightarrow> distinct (map t_id (tasksToExecute ph s))"
  by (simp add: tasksToExecute_def distinct_map_filter)

lemma state_inv_run_frontier:
  assumes inv: "sched_inv te md ph s" and st: "state_inv te md ph s"
    and wf: "distinct (map t_id (ph_tasks ph))"
  shows "state_inv te md ph (run_frontier te md (tasksToExecute ph s) s)"
proof -
  define tks where "tks = tasksToExecute ph s"
  define s' where "s' = run_frontier te md tks s"
  note fr = tasksToExecute_member [of _ ph s, folded tks_def]
  from inv have i1: "\<forall>tk \<in> set (ph_tasks ph). has_instance s (t_id tk)"
    and i4: "\<forall>n tk. TaskStarted n tk \<in> set (sc_events s) \<longrightarrow>
         tk \<in> set (ph_tasks ph)
         \<and> (if fatal (tk, te n tk md) then t_id tk \<in> set (sc_failedTasks s)
            else t_id tk \<in> set (sc_executedTasks s))"
    by (simp_all add: sched_inv_def)
  from st have s1: "\<forall>n tk. TaskStarted n tk \<in> set (sc_events s) \<longrightarrow>
        (\<exists>ti. sc_taskStates s (t_id tk) = Some ti \<and> classified_as (tk, te n tk md) ti)"
    and s2: "set (sc_executedTasks s) \<inter> set (sc_failedTasks s) = {}"
    and s3: "distinct (sc_executedTasks s) \<and> distinct (sc_failedTasks s)"
    and s4: "set (sc_executedTasks s) \<union> set (sc_failedTasks s) \<subseteq> t_id ` set (ph_tasks ph)"
    by (simp_all add: state_inv_def)
  have inst: "\<forall>tk \<in> set tks. has_instance s (t_id tk)"
    using fr i1 by blast
  have dist: "distinct (map t_id tks)"
    unfolding tks_def using wf by (rule tasksToExecute_distinct)
  obtain rs ext where
    tks: "map fst rs = tks"
    and ev: "sc_events s' = sc_events s @ ext @ map settle_event rs
           @ map (\<lambda>x. TaskSkipped (t_id (fst x))) (filter tolerated rs)"
    and ext: "\<forall>e \<in> set ext. \<exists>n tk. e = TaskStarted n tk \<and> (tk, te n tk md) \<in> set rs"
    and ex: "set (sc_executedTasks s')
       = set (sc_executedTasks s) \<union> (\<lambda>x. t_id (fst x)) ` {x \<in> set rs. \<not> fatal x}"
    and fl: "set (sc_failedTasks s')
       = set (sc_failedTasks s) \<union> (\<lambda>x. t_id (fst x)) ` {x \<in> set rs. fatal x}"
    and other: "\<And>k. k \<notin> t_id ` set tks \<Longrightarrow> sc_taskStates s' k = sc_taskStates s k"
    and own': "distinct (map t_id tks) \<Longrightarrow>
       \<forall>x \<in> set rs. \<exists>ti. sc_taskStates s' (t_id (fst x)) = Some ti \<and> classified_as x ti"
    unfolding s'_def by (rule run_frontier_decompose [OF inst, of te md]) blast
  note own = own' [OF dist]
  have in_tks: "\<And>x. x \<in> set rs \<Longrightarrow> fst x \<in> set tks"
  proof -
    fix x :: "task \<times> (js_error + jsval)"
    assume "x \<in> set rs"
    then have "fst x \<in> fst ` set rs" by (rule imageI)
    then show "fst x \<in> set tks" by (simp add: tks [symmetric])
  qed
  define new where "new = ext @ map settle_event rs
           @ map (\<lambda>x. TaskSkipped (t_id (fst x))) (filter tolerated rs)"
  have ev': "sc_events s' = sc_events s @ new"
    by (simp add: ev new_def)
  note nst = new_events_started [of _ _ ext rs, folded new_def]
  have drs: "distinct (map (\<lambda>x. t_id (fst x)) rs)"
    using dist by (simp add: tks [symmetric] comp_def)
  have c1: "\<forall>n tk. TaskStarted n tk \<in> set (sc_events s') \<longrightarrow>
        (\<exists>ti. sc_taskStates s' (t_id tk) = Some ti \<and> classified_as (tk, te n tk md) ti)"
  proof (intro allI impI)
    fix n tk assume "TaskStarted n tk \<in> set (sc_events s')"
    then consider (old) "TaskStarted n tk \<in> set (sc_events s)"
      | (new) "TaskStarted n tk \<in> set ext"
      by (auto simp: ev' nst)
    then show "\<exists>ti. sc_taskStates s' (t_id tk) = Some ti \<and> classified_as (tk, te n tk md) ti"
    proof cases
      case old
      with i4 have "t_id tk \<in> set (sc_executedTasks s) \<union> set (sc_failedTasks s)"
        by (auto split: if_splits)
      with fr have "t_id tk \<notin> t_id ` set tks" by auto
      then have "sc_taskStates s' (t_id tk) = sc_taskStates s (t_id tk)" by (rule other)
      with s1 old show ?thesis by simp
    next
      case new
      with ext have "(tk, te n tk md) \<in> set rs" by auto
      with own show ?thesis by fastforce
    qed
  qed
  have fresh: "\<And>x. x \<in> set rs \<Longrightarrow>
      t_id (fst x) \<notin> set (sc_executedTasks s) \<and> t_id (fst x) \<notin> set (sc_failedTasks s)
      \<and> t_id (fst x) \<in> t_id ` set (ph_tasks ph)"
    using in_tks fr by blast
  have c2: "set (sc_executedTasks s') \<inter> set (sc_failedTasks s') = {}"
  proof -
    have "(\<lambda>x. t_id (fst x)) ` {x \<in> set rs. \<not> fatal x}
        \<inter> (\<lambda>x. t_id (fst x)) ` {x \<in> set rs. fatal x} = {}"
    proof (rule ccontr)
      assume "(\<lambda>x. t_id (fst x)) ` {x \<in> set rs. \<not> fatal x}
        \<inter> (\<lambda>x. t_id (fst x)) ` {x \<in> set rs. fatal x} \<noteq> {}"
      then obtain x y where xy: "x \<in> set rs" "\<not> fatal x" "y \<in> set rs" "fatal y"
        "t_id (fst x) = t_id (fst y)" by auto
      from drs have "inj_on (\<lambda>x. t_id (fst x)) (set rs)"
        by (simp add: distinct_map)
      with xy have "x = y" by (auto dest: inj_onD)
      with xy show False by simp
    qed
    with s2 fresh show ?thesis
      by (auto simp: ex fl)
  qed
  have c3: "distinct (sc_executedTasks s') \<and> distinct (sc_failedTasks s')"
    unfolding s'_def using s3 by (rule run_frontier_distinct)
  have c4: "set (sc_executedTasks s') \<union> set (sc_failedTasks s') \<subseteq> t_id ` set (ph_tasks ph)"
    using s4 fresh by (auto simp: ex fl)
  from c1 c2 c3 c4 show ?thesis
    unfolding state_inv_def s'_def tks_def by blast
qed

lemma schedule_invariant:
  assumes "\<And>s. P s \<Longrightarrow> tasksToExecute ph s \<noteq> [] \<Longrightarrow>
              P (run_frontier te md (tasksToExecute ph s) s)"
    and "P s"
  shows "P (fst (schedule te md ph s))"
  using assms
proof (induction te md ph s rule: schedule.induct)
  case (1 te md ph s)
  show ?case
  proof (cases "length (sc_executedTasks s) + length (sc_failedTasks s) < length (ph_tasks ph)
                \<and> tasksToExecute ph s \<noteq> []")
    case True
    then have "P (fst (schedule te md ph (run_frontier te md (tasksToExecute ph s) s)))"
      using "1.IH" "1.prems" by blast
    with True show ?thesis
      by (subst schedule.simps) simp
  next
    case False
    then have "fst (schedule te md ph s) = s"
      by (subst schedule.simps) auto
    with "1.prems"(2) show ?thesis by simp
  qed
qed

text \<open>How the loop can stop.\<close>

lemma schedule_exit:
  assumes "schedule te md ph s = (s', err)"
  shows "(err = None \<and> (length (ph_tasks ph) \<le> resolved_count s' \<or> pendingTasks ph s' = []))
       \<or> (err = Some (PhaseExecutionError
                  ''Cannot execute remaining tasks due to unsatisfied dependencies''
                  (ph_id ph) (Some (map t_id (pendingTasks ph s'))) (Some (sc_failedTasks s')))
          \<and> resolved_count s' < length (ph_tasks ph)
          \<and> tasksToExecute ph s' = [] \<and> pendingTasks ph s' \<noteq> [])"
  using assms
proof (induction te md ph s rule: schedule.induct)
  case (1 te md ph s)
  show ?case
  proof (cases "length (sc_executedTasks s) + length (sc_failedTasks s) < length (ph_tasks ph)
                \<and> tasksToExecute ph s \<noteq> []")
    case True
    then have "schedule te md ph (run_frontier te md (tasksToExecute ph s) s) = (s', err)"
      using "1.prems" by (subst (asm) schedule.simps) simp
    with True "1.IH" show ?thesis by blast
  next
    case False
    with "1.prems" show ?thesis
      by (subst (asm) schedule.simps) (auto simp: resolved_count_def split: if_splits)
  qed
qed

lemma init_task_has:
  "(fold init_task tks m) k \<noteq> None \<longleftrightarrow> m k \<noteq> None \<or> k \<in> t_id ` set tks"
  by (induction tks arbitrary: m) (auto simp: init_task_def)

lemma deps_ready_Nil: "deps_ready []"
  by (simp add: deps_ready_def)

lemma init_sched_has_instance:
  "tk \<in> set (ph_tasks ph) \<Longrightarrow> has_instance (init_sched ph p clk) (t_id tk)"
  unfolding has_instance_def init_sched_def
  by (simp add: init_task_has del: not_None_eq)

lemma sched_inv_init: "sched_inv te md ph (init_sched ph p clk)"
  unfolding sched_inv_def
  by (simp add: init_sched_has_instance) (simp add: init_sched_def deps_ready_Nil resolved_in_def)

lemma state_inv_init: "state_inv te md ph (init_sched ph p clk)"
  by (simp add: state_inv_def init_sched_def)

lemma sched_inv_schedule:
  "sched_inv te md ph (fst (schedule te md ph (init_sched ph p clk)))"
  by (rule schedule_invariant [where P = "sched_inv te md ph"])
     (simp_all add: sched_inv_run_frontier sched_inv_init)

lemma state_inv_schedule:
  assumes "distinct (map t_id (ph_tasks ph))"
  shows "state_inv te md ph (fst (schedule te md ph (init_sched ph p clk)))"
proof -
  have "sched_inv te md ph (fst (schedule te md ph (init_sched ph p clk)))
      \<and> state_inv te md ph (fst (schedule te md ph (init_sched ph p clk)))"
    by (rule schedule_invariant
          [where P = "\<lambda>s. sched_inv te md ph s \<and> state_inv te md ph s"])
       (simp_all add: sched_inv_run_frontier state_inv_run_frontier assms
          sched_inv_init state_inv_init)
  then show ?thesis by simp
qed

text \<open>With distinct task ids, a loop that stopped without an error resolved every task.\<close>

lemma resolved_all:
  assumes wf: "distinct (map t_id (ph_tasks ph))"
    and st: "state_inv te md ph s"
    and full: "length (ph_tasks ph) \<le> resolved_count s"
  shows "pendingTasks ph s = []"
proof -
  from st have dj: "set (sc_executedTasks s) \<inter> set (sc_failedTasks s) = {}"
    and d: "distinct (sc_executedTasks s)" "distinct (sc_failedTasks s)"
    and sub: "set (sc_executedTasks s) \<union> set (sc_failedTasks s) \<subseteq> t_id ` set (ph_tasks ph)"
    by (simp_all add: state_inv_def)
  have "card (set (sc_executedTasks s) \<union> set (sc_failedTasks s)) = resolved_count s"
    using dj d by (simp add: card_Un_disjoint distinct_card resolved_count_def)
  moreover have "card (t_id ` set (ph_tasks ph)) = length (ph_tasks ph)"
    using wf by (metis distinct_card length_map set_map)
  ultimately have "card (t_id ` set (ph_tasks ph))
      \<le> card (set (sc_executedTasks s) \<union> set (sc_failedTasks s))"
    using full by simp
  with sub have "set (sc_executedTasks s) \<union> set (sc_failedTasks s) = t_id ` set (ph_tasks ph)"
    by (simp add: card_seteq)
  then show ?thesis
    by (auto simp: pendingTasks_def filter_empty_conv)
qed

lemma executePhase_events:
  "run_events (PhaseExecutor_executePhase te md ph p clk) = sc_events (final_sched te md ph p clk)"
  by (cases "schedule te md ph (init_sched ph p clk)")
     (simp add: PhaseExecutor_executePhase_def final_sched_def)

lemma executePhase_taskStates:
  "pi_taskStates (run_instance (PhaseExecutor_executePhase te md ph p clk))
     = sc_taskStates (final_sched te md ph p clk)"
  by (cases "schedule te md ph (init_sched ph p clk)")
     (simp add: PhaseExecutor_executePhase_def final_sched_def)

lemma executePhase_error:
  "run_error (PhaseExecutor_executePhase te md ph p clk) =
     (case snd (schedule te md ph (init_sched ph p clk)) of
        Some e \<Rightarrow> Some e
      | None \<Rightarrow>
          if sc_failedTasks (final_sched te md ph p clk) \<noteq> [] then
            Some (PhaseExecutionError ''Phase execution failed due to required task failures''
                    (ph_id ph) None (Some (sc_failedTasks (final_sched te md ph p clk))))
          else if \<not> validatePhaseCompletion ph (sc_taskStates (final_sched te md ph p clk)) then
            Some (PhaseExecutionError ''Phase completion validation failed'' (ph_id ph) None None)
          else None)"
  by (cases "schedule te md ph (init_sched ph p clk)")
     (simp add: PhaseExecutor_executePhase_def final_sched_def split: option.splits)

lemma final_exit:
  "(snd (schedule te md ph (init_sched ph p clk)) = None
      \<and> (length (ph_tasks ph) \<le> resolved_count (final_sched te md ph p clk)
           \<or> pendingTasks ph (final_sched te md ph p clk) = []))
   \<or> (snd (schedule te md ph (init_sched ph p clk))
         = Some (PhaseExecutionError
                  ''Cannot execute remaining tasks due to unsatisfied dependencies''
                  (ph_id ph) (Some (map t_id (pendingTasks ph (final_sched te md ph p clk))))
                  (Some (sc_failedTasks (final_sched te md ph p clk))))
       \<and> tasksToExecute ph (final_sched te md ph p clk) = []
       \<and> pendingTasks ph (final_sched te md ph p clk) \<noteq> [])"
  using schedule_exit [of te md ph "init_sched ph p clk"
      "fst (schedule te md ph (init_sched ph p clk))"
      "snd (schedule te md ph (init_sched ph p clk))"]
  by (auto simp: final_sched_def)

lemma final_sched_inv: "sched_inv te md ph (final_sched te md ph p clk)"
  unfolding final_sched_def by (rule sched_inv_schedule)

lemma final_state_inv:
  "distinct (map t_id (ph_tasks ph)) \<Longrightarrow> state_inv te md ph (final_sched te md ph p clk)"
  unfolding final_sched_def by (rule state_inv_schedule)

lemma same_id_same_task:
  "distinct (map t_id tks) \<Longrightarrow> a \<in> set tks \<Longrightarrow> b \<in> set tks \<Longrightarrow> t_id a = t_id b \<Longrightarrow> a = b"
  by (meson distinct_map inj_onD)

lemma started_in_phase:
  "sched_inv te md ph s \<Longrightarrow> TaskStarted n tk \<in> set (sc_events s) \<Longrightarrow> tk \<in> set (ph_tasks ph)"
  by (simp add: sched_inv_def)

lemma resolved_started:
  assumes inv: "sched_inv te md ph s" and wf: "distinct (map t_id (ph_tasks ph))"
    and tk: "tk \<in> set (ph_tasks ph)"
    and r: "t_id tk \<in> set (sc_executedTasks s) \<or> t_id tk \<in> set (sc_failedTasks s)"
  shows "\<exists>n. TaskStarted n tk \<in> set (sc_events s)"
proof -
  from inv r have "begun_in (sc_events s) (t_id tk)"
    unfolding sched_inv_def begun_in_def by blast
  then obtain n tk' where s: "TaskStarted n tk' \<in> set (sc_events s)" "t_id tk' = t_id tk"
    by (auto simp: begun_in_def)
  with inv have "tk' \<in> set (ph_tasks ph)" by (simp add: started_in_phase)
  with wf tk s(2) have "tk' = tk" by (simp add: same_id_same_task)
  with s(1) show ?thesis by blast
qed

lemma pending_iff:
  "tk \<in> set (pendingTasks ph s) \<longleftrightarrow>
     tk \<in> set (ph_tasks ph) \<and> t_id tk \<notin> set (sc_executedTasks s)
       \<and> t_id tk \<notin> set (sc_failedTasks s)"
  by (auto simp: pendingTasks_def)

lemma frontier_iff:
  "tk \<in> set (tasksToExecute ph s) \<longleftrightarrow>
     tk \<in> set (pendingTasks ph s) \<and> set (dependencies tk) \<subseteq> set (sc_executedTasks s)"
  by (auto simp: tasksToExecute_def pendingTasks_def list_all_iff)


text \<open>A task all of whose dependencies were resolved has been started.\<close>

lemma ready_task_started:
  assumes wf: "distinct (map t_id (ph_tasks ph))"
    and tk: "tk \<in> set (ph_tasks ph)"
    and deps: "\<forall>d \<in> set (dependencies tk).
        TaskCompleted d \<in> set (run_events (PhaseExecutor_executePhase te md ph p clk))
        \<or> TaskSkipped d \<in> set (run_events (PhaseExecutor_executePhase te md ph p clk))"
  shows "\<exists>n. TaskStarted n tk \<in> set (run_events (PhaseExecutor_executePhase te md ph p clk))"
proof -
  define s where "s = final_sched te md ph p clk"
  have inv: "sched_inv te md ph s" unfolding s_def by (rule final_sched_inv)
  have st: "state_inv te md ph s" unfolding s_def using wf by (rule final_state_inv)
  from deps have "\<forall>d \<in> set (dependencies tk). resolved_in (sc_events s) d"
    by (simp add: executePhase_events s_def resolved_in_def)
  with inv have sub: "set (dependencies tk) \<subseteq> set (sc_executedTasks s)"
    unfolding sched_inv_def by blast
  have "tk \<notin> set (pendingTasks ph s)"
  proof
    assume pend: "tk \<in> set (pendingTasks ph s)"
    then have ne: "pendingTasks ph s \<noteq> []" by auto
    with resolved_all [OF wf st] have "\<not> length (ph_tasks ph) \<le> resolved_count s" by blast
    with ne final_exit [of te md ph p clk] have "tasksToExecute ph s = []"
      by (auto simp: s_def)
    moreover from pend sub have "tk \<in> set (tasksToExecute ph s)" by (simp add: frontier_iff)
    ultimately show False by simp
  qed
  with tk have "t_id tk \<in> set (sc_executedTasks s) \<or> t_id tk \<in> set (sc_failedTasks s)"
    by (auto simp: pending_iff)
  from resolved_started [OF inv wf tk this] show ?thesis
    by (simp add: executePhase_events s_def)
qed

text \<open>
  With distinct ids and an acyclic dependency graph inside the phase, a run in which no
  required task is rejected succeeds.
\<close>

lemma executePhase_succeeds:
  assumes wf: "distinct (map t_id (ph_tasks ph))"
    and ac: "acyclic_deps rank ph"
    and ok: "\<forall>n tk. TaskStarted n tk \<in> set (run_events (PhaseExecutor_executePhase te md ph p clk))
               \<longrightarrow> \<not> fatal (tk, te n tk md)"
  shows "run_error (PhaseExecutor_executePhase te md ph p clk) = None"
proof -
  define s where "s = final_sched te md ph p clk"
  have inv: "sched_inv te md ph s" unfolding s_def by (rule final_sched_inv)
  have st: "state_inv te md ph s" unfolding s_def using wf by (rule final_state_inv)
  from ok have ok': "\<forall>n tk. TaskStarted n tk \<in> set (sc_events s) \<longrightarrow> \<not> fatal (tk, te n tk md)"
    by (simp add: executePhase_events s_def)
  have nofail: "sc_failedTasks s = []"
  proof (rule ccontr)
    assume "sc_failedTasks s \<noteq> []"
    then obtain k where "k \<in> set (sc_failedTasks s)" by (cases "sc_failedTasks s") auto
    with inv obtain n tk where "TaskStarted n tk \<in> set (sc_events s)" "fatal (tk, te n tk md)"
      unfolding sched_inv_def by blast
    with ok' show False by blast
  qed
  have nopend: "pendingTasks ph s = []"
  proof (rule ccontr)
    assume ne: "pendingTasks ph s \<noteq> []"
    then obtain tk0 where "tk0 \<in> set (pendingTasks ph s)" by (cases "pendingTasks ph s") auto
    from ex_has_least_nat [of "\<lambda>tk. tk \<in> set (pendingTasks ph s)" tk0 "\<lambda>tk. rank (t_id tk)", OF this]
    obtain tk where pend: "tk \<in> set (pendingTasks ph s)"
      and least: "\<forall>y. y \<in> set (pendingTasks ph s) \<longrightarrow> rank (t_id tk) \<le> rank (t_id y)"
      by blast
    from pend have tk: "tk \<in> set (ph_tasks ph)" by (simp add: pending_iff)
    have "set (dependencies tk) \<subseteq> set (sc_executedTasks s)"
    proof
      fix d assume d: "d \<in> set (dependencies tk)"
      with ac tk have "d \<in> t_id ` set (ph_tasks ph)" and lt: "rank d < rank (t_id tk)"
        unfolding acyclic_deps_def by blast+
      then obtain tkd where tkd: "tkd \<in> set (ph_tasks ph)" "t_id tkd = d" by auto
      with least lt have "tkd \<notin> set (pendingTasks ph s)" by force
      with tkd nofail show "d \<in> set (sc_executedTasks s)" by (auto simp: pending_iff)
    qed
    with pend have "tk \<in> set (tasksToExecute ph s)" by (simp add: frontier_iff)
    moreover from resolved_all [OF wf st] ne have "\<not> length (ph_tasks ph) \<le> resolved_count s"
      by blast
    with ne final_exit [of te md ph p clk] have "tasksToExecute ph s = []"
      by (auto simp: s_def)
    ultimately show False by simp
  qed
  have noerr: "snd (schedule te md ph (init_sched ph p clk)) = None"
    using final_exit [of te md ph p clk] nopend by (auto simp: s_def)
  have "validatePhaseCompletion ph (sc_taskStates s)"
    unfolding validatePhaseCompletion_def list_all_iff
  proof
    fix tk assume "tk \<in> set (filter t_required (ph_tasks ph))"
    then have tk: "tk \<in> set (ph_tasks ph)" and req: "t_required tk" by simp_all
    from nopend tk have "t_id tk \<in> set (sc_executedTasks s) \<or> t_id tk \<in> set (sc_failedTasks s)"
      using pending_iff [of tk ph s] by auto
    from resolved_started [OF inv wf tk this] obtain n where
      n: "TaskStarted n tk \<in> set (sc_events s)" by blast
    with ok' have "\<not> fatal (tk, te n tk md)" by blast
    with req obtain r where r: "te n tk md = Inr r"
      by (cases "te n tk md") (auto simp: fatal_def)
    from st n obtain ti where "sc_taskStates s (t_id tk) = Some ti"
      "classified_as (tk, te n tk md) ti"
      unfolding state_inv_def by blast
    with r show "case sc_taskStates s (t_id tk) of None \<Rightarrow> False
                 | Some ti \<Rightarrow> ti_state ti = TCompleted"
      by (simp add: classified_as_def)
  qed
  with noerr nofail show ?thesis
    by (simp add: executePhase_error s_def)
qed




text \<open>The failed set when the loop has stopped.\<close>

lemma distinct_singleton:
  assumes "distinct xs" and "set xs = {x}"
  shows "xs = [x]"
proof (cases xs)
  case Nil
  with assms(2) show ?thesis by simp
next
  case (Cons a ys)
  with assms have a: "a = x" and n: "x \<notin> set ys" and sub: "\<forall>y \<in> set ys. y = x" by auto
  have "ys = []"
  proof (cases ys)
    case Nil
    then show ?thesis .
  next
    case (Cons b zs)
    with sub have "b = x" by simp
    with n Cons show ?thesis by simp
  qed
  with Cons a show ?thesis by simp
qed

lemma classify_failed_distinct:
  "distinct (sc_failedTasks s) \<Longrightarrow> distinct (sc_failedTasks (classify x s))"
  by (auto simp: classify_def distinct_set_add split: sum.splits option.splits)

lemma fold_classify_failed_distinct:
  "distinct (sc_failedTasks s) \<Longrightarrow> distinct (sc_failedTasks (fold classify rs s))"
  by (induction rs arbitrary: s) (simp_all add: classify_failed_distinct)

lemma run_frontier_failed_distinct:
  assumes "distinct (sc_failedTasks s)"
  shows "distinct (sc_failedTasks (run_frontier te md tks s))"
proof -
  obtain s1 rs where b: "begin_all te md tks s = (s1, rs)"
    by (cases "begin_all te md tks s") auto
  have "sc_failedTasks (fold executeTask_settle rs s1) = sc_failedTasks s"
    using settle_sets [of rs s1] begin_all_sets [OF b] by simp
  with assms have "distinct (sc_failedTasks (fold executeTask_settle rs s1))" by simp
  then show ?thesis
    by (simp add: run_frontier_def b fold_classify_failed_distinct)
qed

lemma final_failed_distinct: "distinct (sc_failedTasks (final_sched te md ph p clk))"
  unfolding final_sched_def
  by (rule schedule_invariant [where P = "\<lambda>s. distinct (sc_failedTasks s)"])
     (simp_all add: run_frontier_failed_distinct init_sched_def)

lemma failed_set:
  assumes "sched_inv te md ph s"
  shows "set (sc_failedTasks s)
     = {t_id tk | n tk. TaskStarted n tk \<in> set (sc_events s) \<and> isl (te n tk md)
                     \<and> t_required tk}"
proof (intro set_eqI iffI)
  fix k
  assume "k \<in> set (sc_failedTasks s)"
  with assms obtain n tk where "TaskStarted n tk \<in> set (sc_events s)" "t_id tk = k"
    "fatal (tk, te n tk md)"
    unfolding sched_inv_def by blast
  then show "k \<in> {t_id tk | n tk. TaskStarted n tk \<in> set (sc_events s) \<and> isl (te n tk md)
                     \<and> t_required tk}"
    by (auto simp: fatal_def)
next
  fix k
  assume "k \<in> {t_id tk | n tk. TaskStarted n tk \<in> set (sc_events s) \<and> isl (te n tk md)
                     \<and> t_required tk}"
  then obtain n tk where "TaskStarted n tk \<in> set (sc_events s)" "t_id tk = k"
    "fatal (tk, te n tk md)"
    by (auto simp: fatal_def)
  with assms show "k \<in> set (sc_failedTasks s)"
    unfolding sched_inv_def by (metis (full_types))
qed

lemma executed_set:
  assumes "sched_inv te md ph s"
  shows "d \<in> set (sc_executedTasks s) \<longleftrightarrow> resolved_in (sc_events s) d"
  using assms unfolding sched_inv_def by blast

lemma pending_ids:
  assumes "sched_inv te md ph s"
  shows "pendingTasks ph s
     = filter (\<lambda>tk. \<not> resolved_in (sc_events s) (t_id tk) \<and> t_id tk \<notin> set (sc_failedTasks s))
         (ph_tasks ph)"
  by (simp add: pendingTasks_def executed_set [OF assms])

section \<open>Results about validateTaskResult\<close>

text \<open>
  C8, as stated, fails: an automated task whose result has status \<open>completed\<close> is rejected,
  although the claim lets \<open>completed\<close> pass for automated tasks.
\<close>

theorem validateTaskResult_automated_completed_rejected:
  "t_type automated_completed_task = ''automated''
   \<and> truthy (ti_result status_completed_instance)
   \<and> get_prop (ti_result status_completed_instance) ''status'' = JStr ''completed''
   \<and> validateTaskResult automated_completed_task status_completed_instance = JBool False"
  by (simp add: validateTaskResult_def automated_completed_task_def status_completed_instance_def)

text \<open>
  C8 (amended): \<open>validateTaskResult\<close> returns \<open>false\<close> whenever the instance has no (truthy)
  result. Otherwise its value is truthy exactly when the result passes the shape check of
  the task type: automated requires status \<open>success\<close>; manual requires status \<open>success\<close> and a
  truthy \<open>completedBy\<close>; review requires \<open>approved\<close> or \<open>passed\<close>; approval requires
  \<open>approved\<close>; any other type requires \<open>success\<close> or \<open>completed\<close>. For every type other than
  manual the value is the boolean itself.
\<close>

theorem validateTaskResult_shape_check:
  "(\<not> truthy (ti_result ti) \<longrightarrow> validateTaskResult tk ti = JBool False)
   \<and> (truthy (validateTaskResult tk ti) \<longleftrightarrow>
        truthy (ti_result ti) \<and>
        (if t_type tk = ''automated'' then
           get_prop (ti_result ti) ''status'' = JStr ''success''
         else if t_type tk = ''manual'' then
           get_prop (ti_result ti) ''status'' = JStr ''success''
           \<and> truthy (get_prop (ti_result ti) ''completedBy'')
         else if t_type tk = ''review'' then
           get_prop (ti_result ti) ''status'' = JStr ''approved''
           \<or> get_prop (ti_result ti) ''status'' = JStr ''passed''
         else if t_type tk = ''approval'' then
           get_prop (ti_result ti) ''status'' = JStr ''approved''
         else
           get_prop (ti_result ti) ''status'' = JStr ''success''
           \<or> get_prop (ti_result ti) ''status'' = JStr ''completed''))
   \<and> (t_type tk \<noteq> ''manual'' \<longrightarrow>
        validateTaskResult tk ti = JBool (truthy (validateTaskResult tk ti)))"
  by (simp add: validateTaskResult_def js_and_def Let_def)

theorem validateTaskResult_shape_check_witness:
  "truthy (ti_result status_completed_instance)
   \<and> t_type automated_completed_task \<noteq> ''manual''
   \<and> \<not> truthy (validateTaskResult automated_completed_task status_completed_instance)
   \<and> validateTaskResult automated_completed_task status_completed_instance = JBool False"
  using validateTaskResult_shape_check
          [of status_completed_instance automated_completed_task]
  by (simp add: validateTaskResult_def automated_completed_task_def
        status_completed_instance_def)

section \<open>Results about rollbackPhase\<close>

text \<open>
  C9: \<open>rollbackPhase\<close> sets the phase instance to \<open>rolled_back\<close> and changes nothing else
  of it but the task instances; a task instance that is \<open>completed\<close> becomes \<open>pending\<close>
  with result and error cleared and every other field kept; a task instance in any other
  state is unchanged; no task instance is added or removed and no retry counter changes.
\<close>

theorem rollbackPhase_frame:
  "pi_state (rollbackPhase p) = PRolledBack
   \<and> rollbackPhase p = p\<lparr>pi_state := PRolledBack, pi_taskStates := pi_taskStates (rollbackPhase p)\<rparr>
   \<and> pi_retryCount (rollbackPhase p) = pi_retryCount p
   \<and> dom (pi_taskStates (rollbackPhase p)) = dom (pi_taskStates p)
   \<and> (\<forall>k ti. pi_taskStates p k = Some ti \<longrightarrow>
         (\<exists>ti'. pi_taskStates (rollbackPhase p) k = Some ti'
            \<and> ti_retryCount ti' = ti_retryCount ti
            \<and> (ti_state ti = TCompleted \<longrightarrow>
                 ti' = ti\<lparr>ti_state := TPending, ti_result := JUndefined, ti_error := None\<rparr>)
            \<and> (ti_state ti \<noteq> TCompleted \<longrightarrow> ti' = ti)))"
  by (auto simp: rollbackPhase_def rollback_task_def dom_def)

theorem rollbackPhase_frame_witness:
  "pi_taskStates rollback_example ''task1'' = Some (status_completed_instance\<lparr>ti_retryCount := 2\<rparr>)
   \<and> pi_state (rollbackPhase rollback_example) = PRolledBack
   \<and> pi_retryCount (rollbackPhase rollback_example) = 1
   \<and> pi_taskStates (rollbackPhase rollback_example) ''task1''
       = Some (status_completed_instance\<lparr>ti_retryCount := 2, ti_state := TPending,
                 ti_result := JUndefined, ti_error := None\<rparr>)
   \<and> pi_taskStates (rollbackPhase rollback_example) ''task2''
       = pi_taskStates rollback_example ''task2''"
  using rollbackPhase_frame [of rollback_example]
  by (simp add: rollback_example_def status_completed_instance_def rollbackPhase_def
        rollback_task_def)

section \<open>Results about PhaseExecutor.executePhase\<close>

text \<open>
  C2: during \<open>executePhase\<close>, whenever a task is started (its instance is marked \<open>running\<close>
  and it is handed to \<open>TaskExecutor.executeTask\<close>), every dependency it declares has been
  marked \<open>completed\<close> or \<open>skipped\<close> earlier in the run, and a task with the dependency's id
  was started earlier. Along a dependency chain the tasks are therefore started in the
  order of the chain.
\<close>

theorem executePhase_dependencies_first:
  assumes "run_events (PhaseExecutor_executePhase te md ph p clk) = pre @ TaskStarted n tk # post"
    and "d \<in> set (dependencies tk)"
  shows "(TaskCompleted d \<in> set pre \<or> TaskSkipped d \<in> set pre)
       \<and> (\<exists>m tk'. TaskStarted m tk' \<in> set pre \<and> t_id tk' = d)"
proof -
  have "deps_ready (sc_events (final_sched te md ph p clk))"
    using final_sched_inv [of te md ph p clk] by (simp add: sched_inv_def)
  with assms have "resolved_in pre d \<and> begun_in pre d"
    unfolding deps_ready_def executePhase_events by blast
  then show ?thesis
    by (simp add: resolved_in_def begun_in_def)
qed

theorem executePhase_dependencies_first_witness:
  "run_events (PhaseExecutor_executePhase te_success None test_phase test_phase_instance 0)
     = [TaskStarted 0 (example_task ''task1'' ''manual'' True None),
        TaskCompleted ''task1'',
        TaskStarted 1 (example_task ''task2'' ''automated'' False (Some [''task1''])),
        TaskCompleted ''task2'']
       @ TaskStarted 2 (example_task ''task3'' ''review'' True (Some [''task2'']))
       # [TaskCompleted ''task3'']
   \<and> ''task2'' \<in> set (dependencies (example_task ''task3'' ''review'' True (Some [''task2''])))
   \<and> (\<exists>m tk'. TaskStarted m tk'
          \<in> set [TaskStarted 0 (example_task ''task1'' ''manual'' True None),
                 TaskCompleted ''task1'',
                 TaskStarted 1 (example_task ''task2'' ''automated'' False (Some [''task1''])),
                 TaskCompleted ''task2'']
        \<and> t_id tk' = ''task2'')"
proof -
  have run: "run_events (PhaseExecutor_executePhase te_success None test_phase test_phase_instance 0)
     = [TaskStarted 0 (example_task ''task1'' ''manual'' True None),
        TaskCompleted ''task1'',
        TaskStarted 1 (example_task ''task2'' ''automated'' False (Some [''task1''])),
        TaskCompleted ''task2'']
       @ TaskStarted 2 (example_task ''task3'' ''review'' True (Some [''task2'']))
       # [TaskCompleted ''task3'']"
    by code_simp
  have dep: "''task2'' \<in> set (dependencies (example_task ''task3'' ''review'' True (Some [''task2''])))"
    by code_simp
  from executePhase_dependencies_first [OF run dep] run dep show ?thesis
    by blast
qed

text \<open>
  C3: for a task that was started and whose execution rejects: if it is required, the
  phase fails with a \<open>PhaseExecutionError\<close> that carries the failed task ids, each once:
  exactly the ids of the required tasks that were started and whose execution rejected,
  its id among them. This is the error "required task failures" or, when tasks stay
  blocked, the scheduling error, which also names the tasks that are neither resolved nor
  failed. If it is not required (task ids being distinct), its instance ends in state
  \<open>skipped\<close> and it is recorded as skipped, which resolves it for dependency purposes. Every
  task of the phase whose dependencies were all completed or skipped has been started.
  And a phase with distinct task ids and an acyclic dependency graph, in which only
  non-required tasks reject, completes successfully.
\<close>

theorem executePhase_rejected_tasks:
  assumes R: "R = PhaseExecutor_executePhase te md ph p clk"
  shows "(\<forall>n tk e. TaskStarted n tk \<in> set (run_events R) \<and> te n tk md = Inl e \<and> t_required tk
            \<longrightarrow> (\<exists>msg pend fl.
                   run_error R = Some (PhaseExecutionError msg (ph_id ph) pend (Some fl))
                   \<and> t_id tk \<in> set fl \<and> distinct fl
                   \<and> set fl = {t_id tk' | n' tk'. TaskStarted n' tk' \<in> set (run_events R)
                                   \<and> isl (te n' tk' md) \<and> t_required tk'}
                   \<and> (msg = ''Phase execution failed due to required task failures''
                        \<and> pend = None
                      \<or> msg = ''Cannot execute remaining tasks due to unsatisfied dependencies''
                        \<and> pend = Some (map t_id
                              (filter (\<lambda>tk'. \<not> resolved_in (run_events R) (t_id tk')
                                              \<and> t_id tk' \<notin> set fl) (ph_tasks ph))))))
       \<and> (distinct (map t_id (ph_tasks ph)) \<longrightarrow>
            (\<forall>n tk e. TaskStarted n tk \<in> set (run_events R) \<and> te n tk md = Inl e
                  \<and> \<not> t_required tk
               \<longrightarrow> (\<exists>ti. pi_taskStates (run_instance R) (t_id tk) = Some ti
                          \<and> ti_state ti = TSkipped)
                   \<and> TaskSkipped (t_id tk) \<in> set (run_events R)))
       \<and> (distinct (map t_id (ph_tasks ph)) \<longrightarrow>
            (\<forall>tk \<in> set (ph_tasks ph).
               (\<forall>d \<in> set (dependencies tk).
                   TaskCompleted d \<in> set (run_events R) \<or> TaskSkipped d \<in> set (run_events R))
               \<longrightarrow> (\<exists>m. TaskStarted m tk \<in> set (run_events R))))
       \<and> (distinct (map t_id (ph_tasks ph)) \<and> acyclic_deps rank ph
            \<and> (\<forall>n tk e. TaskStarted n tk \<in> set (run_events R) \<and> te n tk md = Inl e
                  \<longrightarrow> \<not> t_required tk)
            \<longrightarrow> run_error R = None)"
proof -
  define s where "s = final_sched te md ph p clk"
  have inv: "sched_inv te md ph s" unfolding s_def by (rule final_sched_inv)
  have ev: "run_events R = sc_events s" by (simp add: R s_def executePhase_events)
  have a: "\<exists>msg pend fl. run_error R = Some (PhaseExecutionError msg (ph_id ph) pend (Some fl))
                   \<and> t_id tk \<in> set fl \<and> distinct fl
                   \<and> set fl = {t_id tk' | n' tk'. TaskStarted n' tk' \<in> set (run_events R)
                                   \<and> isl (te n' tk' md) \<and> t_required tk'}
                   \<and> (msg = ''Phase execution failed due to required task failures''
                        \<and> pend = None
                      \<or> msg = ''Cannot execute remaining tasks due to unsatisfied dependencies''
                        \<and> pend = Some (map t_id
                              (filter (\<lambda>tk'. \<not> resolved_in (run_events R) (t_id tk')
                                              \<and> t_id tk' \<notin> set fl) (ph_tasks ph))))"
    if "TaskStarted n tk \<in> set (run_events R)" "te n tk md = Inl e" "t_required tk"
    for n tk e
  proof -
    from that have "TaskStarted n tk \<in> set (sc_events s)" "fatal (tk, te n tk md)"
      by (simp_all add: ev fatal_def)
    with inv have f: "t_id tk \<in> set (sc_failedTasks s)"
      unfolding sched_inv_def by (metis (full_types))
    then have ne: "sc_failedTasks s \<noteq> []" by auto
    have d: "distinct (sc_failedTasks s)"
      unfolding s_def by (rule final_failed_distinct)
    have fs: "set (sc_failedTasks s)
        = {t_id tk' | n' tk'. TaskStarted n' tk' \<in> set (run_events R)
                                   \<and> isl (te n' tk' md) \<and> t_required tk'}"
      unfolding ev by (rule failed_set [OF inv])
    have pd: "pendingTasks ph s
        = filter (\<lambda>tk'. \<not> resolved_in (run_events R) (t_id tk')
                        \<and> t_id tk' \<notin> set (sc_failedTasks s)) (ph_tasks ph)"
      unfolding ev by (rule pending_ids [OF inv])
    from final_exit [of te md ph p clk]
    have "run_error R
          = Some (PhaseExecutionError ''Phase execution failed due to required task failures''
                    (ph_id ph) None (Some (sc_failedTasks s)))
        \<or> run_error R
          = Some (PhaseExecutionError
                    ''Cannot execute remaining tasks due to unsatisfied dependencies''
                    (ph_id ph) (Some (map t_id (pendingTasks ph s))) (Some (sc_failedTasks s)))"
      unfolding R executePhase_error s_def [symmetric] using ne by auto
    then show ?thesis
    proof
      assume "run_error R
          = Some (PhaseExecutionError ''Phase execution failed due to required task failures''
                    (ph_id ph) None (Some (sc_failedTasks s)))"
      with f d fs show ?thesis by blast
    next
      assume "run_error R
          = Some (PhaseExecutionError
                    ''Cannot execute remaining tasks due to unsatisfied dependencies''
                    (ph_id ph) (Some (map t_id (pendingTasks ph s))) (Some (sc_failedTasks s)))"
      with f d fs pd show ?thesis by simp
    qed
  qed
  have b: "(\<exists>ti. pi_taskStates (run_instance R) (t_id tk) = Some ti \<and> ti_state ti = TSkipped)
                   \<and> TaskSkipped (t_id tk) \<in> set (run_events R)"
    if wf: "distinct (map t_id (ph_tasks ph))"
      and "TaskStarted n tk \<in> set (run_events R)" "te n tk md = Inl e" "\<not> t_required tk"
    for n tk e
  proof -
    have st: "state_inv te md ph s" unfolding s_def using wf by (rule final_state_inv)
    from that have n: "TaskStarted n tk \<in> set (sc_events s)" and nf: "\<not> fatal (tk, te n tk md)"
      by (simp_all add: ev fatal_def)
    from st n obtain ti where "sc_taskStates s (t_id tk) = Some ti"
      "classified_as (tk, te n tk md) ti"
      unfolding state_inv_def by blast
    with that(3,4) have 1: "\<exists>ti. pi_taskStates (run_instance R) (t_id tk) = Some ti
        \<and> ti_state ti = TSkipped"
      by (simp add: R executePhase_taskStates s_def classified_as_def)
    from that(3) have "isl (te n tk md)" by simp
    with inv n nf have "TaskSkipped (t_id tk) \<in> set (sc_events s)"
      unfolding sched_inv_def by (metis (full_types))
    then have "TaskSkipped (t_id tk) \<in> set (run_events R)"
      by (simp add: ev)
    with 1 show ?thesis by simp
  qed
  have c: "\<exists>m. TaskStarted m tk \<in> set (run_events R)"
    if "distinct (map t_id (ph_tasks ph))" "tk \<in> set (ph_tasks ph)"
      "\<forall>d \<in> set (dependencies tk).
          TaskCompleted d \<in> set (run_events R) \<or> TaskSkipped d \<in> set (run_events R)"
    for tk
    using ready_task_started [OF that(1,2), of te md p clk] that(3) unfolding R by blast
  have d: "run_error R = None"
    if "distinct (map t_id (ph_tasks ph))" "acyclic_deps rank ph"
      "\<forall>n tk e. TaskStarted n tk \<in> set (run_events R) \<and> te n tk md = Inl e \<longrightarrow> \<not> t_required tk"
  proof -
    have "\<forall>n tk. TaskStarted n tk \<in> set (run_events (PhaseExecutor_executePhase te md ph p clk))
               \<longrightarrow> \<not> fatal (tk, te n tk md)"
    proof (intro allI impI)
      fix n tk
      assume "TaskStarted n tk \<in> set (run_events (PhaseExecutor_executePhase te md ph p clk))"
      with that(3) show "\<not> fatal (tk, te n tk md)"
        unfolding R by (cases "te n tk md") (auto simp: fatal_def)
    qed
    from executePhase_succeeds [OF that(1,2) this] show ?thesis by (simp add: R)
  qed
  from a b c d show ?thesis by blast
qed

theorem executePhase_rejected_tasks_witness:
  "TaskStarted 1 (example_task ''task2'' ''automated'' False (Some [''task1'']))
     \<in> set (run_events (PhaseExecutor_executePhase te_task2_rejects None test_phase
                 test_phase_instance 0))
   \<and> te_task2_rejects 1 (example_task ''task2'' ''automated'' False (Some [''task1''])) None
       = Inl (JsError ''Optional task failed'')
   \<and> \<not> t_required (example_task ''task2'' ''automated'' False (Some [''task1'']))
   \<and> distinct (map t_id (ph_tasks test_phase))
   \<and> acyclic_deps test_rank test_phase
   \<and> TaskSkipped ''task2''
       \<in> set (run_events (PhaseExecutor_executePhase te_task2_rejects None test_phase
                 test_phase_instance 0))
   \<and> run_error (PhaseExecutor_executePhase te_task2_rejects None test_phase
                 test_phase_instance 0) = None
   \<and> TaskStarted 0 (example_task ''task1'' ''manual'' True None)
       \<in> set (run_events (PhaseExecutor_executePhase te_task1_rejects None test_phase
                 test_phase_instance 0))
   \<and> te_task1_rejects 0 (example_task ''task1'' ''manual'' True None) None
       = Inl (JsError ''Required task failed'')
   \<and> t_required (example_task ''task1'' ''manual'' True None)
   \<and> (\<exists>msg pend.
         run_error (PhaseExecutor_executePhase te_task1_rejects None test_phase
                      test_phase_instance 0)
           = Some (PhaseExecutionError msg ''test-phase'' pend (Some [''task1''])))"
proof -
  define R where
    "R = PhaseExecutor_executePhase te_task2_rejects None test_phase test_phase_instance 0"
  have ev: "run_events R
     = [TaskStarted 0 (example_task ''task1'' ''manual'' True None),
        TaskCompleted ''task1'',
        TaskStarted 1 (example_task ''task2'' ''automated'' False (Some [''task1''])),
        TaskFailed ''task2'', TaskSkipped ''task2'',
        TaskStarted 2 (example_task ''task3'' ''review'' True (Some [''task2''])),
        TaskCompleted ''task3'']"
    unfolding R_def by code_simp
  have st: "TaskStarted 1 (example_task ''task2'' ''automated'' False (Some [''task1'']))
     \<in> set (run_events R)"
    by (simp add: ev)
  have rej: "te_task2_rejects 1 (example_task ''task2'' ''automated'' False (Some [''task1''])) None
       = Inl (JsError ''Optional task failed'')"
    by code_simp
  have opt: "\<not> t_required (example_task ''task2'' ''automated'' False (Some [''task1'']))"
    by code_simp
  have wf: "distinct (map t_id (ph_tasks test_phase))"
    by code_simp
  have ac: "acyclic_deps test_rank test_phase"
    by code_simp
  have only: "\<forall>n tk e. TaskStarted n tk \<in> set (run_events R) \<and> te_task2_rejects n tk None = Inl e
                  \<longrightarrow> \<not> t_required tk"
    by (auto simp: ev te_task2_rejects_def example_task_def)
  note facts = executePhase_rejected_tasks [OF R_def, of test_rank]
  note skipped = facts [THEN conjunct2, THEN conjunct1, rule_format]
  note succeeds = facts [THEN conjunct2, THEN conjunct2, THEN conjunct2, rule_format]
  from skipped [OF wf, of 1 "example_task ''task2'' ''automated'' False (Some [''task1''])"]
    st rej opt
  have "TaskSkipped ''task2'' \<in> set (run_events R)"
    by (simp add: example_task_def)
  moreover from succeeds wf ac only have "run_error R = None"
    by blast
  ultimately have first: "TaskStarted 1 (example_task ''task2'' ''automated'' False (Some [''task1'']))
     \<in> set (run_events R)
   \<and> te_task2_rejects 1 (example_task ''task2'' ''automated'' False (Some [''task1''])) None
       = Inl (JsError ''Optional task failed'')
   \<and> \<not> t_required (example_task ''task2'' ''automated'' False (Some [''task1'']))
   \<and> distinct (map t_id (ph_tasks test_phase))
   \<and> acyclic_deps test_rank test_phase
   \<and> TaskSkipped ''task2'' \<in> set (run_events R)
   \<and> run_error R = None"
    using st rej opt wf ac by blast
  define Q where
    "Q = PhaseExecutor_executePhase te_task1_rejects None test_phase test_phase_instance 0"
  have ev1: "run_events Q
     = [TaskStarted 0 (example_task ''task1'' ''manual'' True None), TaskFailed ''task1'']"
    unfolding Q_def by code_simp
  have st1: "TaskStarted 0 (example_task ''task1'' ''manual'' True None) \<in> set (run_events Q)"
    by (simp add: ev1)
  have rej1: "te_task1_rejects 0 (example_task ''task1'' ''manual'' True None) None
       = Inl (JsError ''Required task failed'')"
    by code_simp
  have req: "t_required (example_task ''task1'' ''manual'' True None)"
    by code_simp
  have ids: "{t_id tk' | n' tk'. TaskStarted n' tk' \<in> set (run_events Q)
                \<and> isl (te_task1_rejects n' tk' None) \<and> t_required tk'} = {''task1''}"
    by (auto simp: ev1 te_task1_rejects_def example_task_def)
  have phid: "ph_id test_phase = ''test-phase''" by (simp add: test_phase_def)
  note failed = executePhase_rejected_tasks [OF Q_def, of test_rank, THEN conjunct1,
      rule_format]
  from failed [of 0 "example_task ''task1'' ''manual'' True None"] st1 rej1 req
  obtain msg pend fl where
    e: "run_error Q = Some (PhaseExecutionError msg (ph_id test_phase) pend (Some fl))"
    and d: "distinct fl"
    and f: "set fl = {t_id tk' | n' tk'. TaskStarted n' tk' \<in> set (run_events Q)
                \<and> isl (te_task1_rejects n' tk' None) \<and> t_required tk'}"
    by blast
  from d f have "fl = [''task1'']"
    unfolding ids by (rule distinct_singleton)
  with e have "\<exists>msg pend.
      run_error Q = Some (PhaseExecutionError msg ''test-phase'' pend (Some [''task1'']))"
    by (simp add: phid)
  with first st1 rej1 req show ?thesis
    unfolding R_def Q_def by blast
qed




text \<open>
  C10: in a phase with distinct task ids, every started task whose call of
  \<open>TaskExecutor.executeTask\<close> resolves ends in state \<open>completed\<close> with the returned result,
  whatever the result is; and if every call resolves and the dependency graph is acyclic,
  the phase succeeds. The scheduler never consults \<open>validateTaskResult\<close>: an approval task
  that resolves with status \<open>rejected\<close> is completed and lets the phase succeed.
\<close>

theorem executePhase_resolved_is_completed:
  assumes R: "R = PhaseExecutor_executePhase te md ph p clk"
    and wf: "distinct (map t_id (ph_tasks ph))"
  shows "(\<forall>n tk r. TaskStarted n tk \<in> set (run_events R) \<and> te n tk md = Inr r
            \<longrightarrow> (\<exists>ti. pi_taskStates (run_instance R) (t_id tk) = Some ti
                       \<and> ti_state ti = TCompleted \<and> ti_result ti = r))
       \<and> (acyclic_deps rank ph
            \<and> (\<forall>n tk. TaskStarted n tk \<in> set (run_events R) \<longrightarrow> \<not> isl (te n tk md))
          \<longrightarrow> run_error R = None)"
proof -
  define s where "s = final_sched te md ph p clk"
  have st: "state_inv te md ph s" unfolding s_def using wf by (rule final_state_inv)
  have a: "\<exists>ti. pi_taskStates (run_instance R) (t_id tk) = Some ti
                       \<and> ti_state ti = TCompleted \<and> ti_result ti = r"
    if "TaskStarted n tk \<in> set (run_events R)" "te n tk md = Inr r" for n tk r
  proof -
    from that(1) have "TaskStarted n tk \<in> set (sc_events s)"
      by (simp add: R executePhase_events s_def)
    with st obtain ti where "sc_taskStates s (t_id tk) = Some ti"
      "classified_as (tk, te n tk md) ti"
      unfolding state_inv_def by blast
    with that(2) show ?thesis
      by (simp add: R executePhase_taskStates s_def classified_as_def)
  qed
  have b: "run_error R = None"
    if ac: "acyclic_deps rank ph"
      and ok: "\<forall>n tk. TaskStarted n tk \<in> set (run_events R) \<longrightarrow> \<not> isl (te n tk md)"
  proof -
    from ok have "\<forall>n tk. TaskStarted n tk
          \<in> set (run_events (PhaseExecutor_executePhase te md ph p clk))
        \<longrightarrow> \<not> fatal (tk, te n tk md)"
      by (simp add: R fatal_def)
    from executePhase_succeeds [OF wf ac this] show ?thesis by (simp add: R)
  qed
  from a b show ?thesis by blast
qed

theorem executePhase_resolved_is_completed_witness:
  "distinct (map t_id (ph_tasks approval_phase))
   \<and> TaskStarted 0 (example_task ''sign-off'' ''approval'' True None)
       \<in> set (run_events (PhaseExecutor_executePhase executeTask (Some rejecting_metadata)
                   approval_phase test_phase_instance 0))
   \<and> get_prop (executeApprovalTask 0 (example_task ''sign-off'' ''approval'' True None)
                 (Some rejecting_metadata)) ''status'' = JStr ''rejected''
   \<and> (\<exists>ti. pi_taskStates (run_instance (PhaseExecutor_executePhase executeTask
                 (Some rejecting_metadata) approval_phase test_phase_instance 0)) ''sign-off''
              = Some ti
          \<and> ti_state ti = TCompleted
          \<and> ti_result ti = executeApprovalTask 0
               (example_task ''sign-off'' ''approval'' True None) (Some rejecting_metadata)
          \<and> validateTaskResult (example_task ''sign-off'' ''approval'' True None) ti
              = JBool False)
   \<and> run_error (PhaseExecutor_executePhase executeTask (Some rejecting_metadata)
                   approval_phase test_phase_instance 0) = None"
proof -
  define R where "R = PhaseExecutor_executePhase executeTask (Some rejecting_metadata)
                   approval_phase test_phase_instance 0"
  define tk where "tk = example_task ''sign-off'' ''approval'' True None"
  have wf: "distinct (map t_id (ph_tasks approval_phase))"
    by code_simp
  have ev: "run_events R = [TaskStarted 0 tk, TaskCompleted ''sign-off'']"
    unfolding R_def tk_def by code_simp
  have res: "executeTask 0 tk (Some rejecting_metadata)
      = Inr (executeApprovalTask 0 tk (Some rejecting_metadata))"
    unfolding tk_def by (simp add: executeTask_def example_task_def)
  have rejected: "get_prop (executeApprovalTask 0 tk (Some rejecting_metadata)) ''status''
      = JStr ''rejected''"
    unfolding tk_def by code_simp
  have id: "t_id tk = ''sign-off''" "t_type tk = ''approval''"
    by (simp_all add: tk_def example_task_def)
  have err: "run_error R = None"
    unfolding R_def by code_simp
  from executePhase_resolved_is_completed [OF R_def wf, of undefined] ev res
  obtain ti where ti: "pi_taskStates (run_instance R) (t_id tk) = Some ti"
    "ti_state ti = TCompleted" "ti_result ti = executeApprovalTask 0 tk (Some rejecting_metadata)"
    by (metis list.set_intros(1))
  have "validateTaskResult tk ti = JBool False"
    using rejected ti(3) id
    by (simp add: validateTaskResult_def Let_def executeApprovalTask_def split: if_splits)
  with ti wf ev rejected err id show ?thesis
    unfolding R_def [symmetric] tk_def [symmetric] by auto
qed

section \<open>Steps of the state machine\<close>

lemma evolves_refl: "evolves st st"
  by (simp add: evolves_def)

lemma evolves_trans: "evolves a b \<Longrightarrow> evolves b c \<Longrightarrow> evolves a c"
  unfolding evolves_def
  apply (intro conjI)
    apply (metis append.assoc)
   apply (metis (no_types, lifting))
  apply metis
  done

lemma evolves_log_event: "evolves st (log_event e st)"
  by (simp add: evolves_def log_event_def)

lemma evolves_upd_instance:
  assumes "\<And>wi. wi_workflowId (f wi) = wi_workflowId wi \<and> wi_id (f wi) = wi_id wi
              \<and> wi_metadata (f wi) = wi_metadata wi
              \<and> dom (wi_phaseStates (f wi)) = dom (wi_phaseStates wi)"
  shows "evolves st (upd_instance iid f st)"
  using assms by (auto simp: evolves_def upd_instance_def split: option.splits)

lemma evolves_upd_phase: "evolves st (upd_phase iid pid f st)"
  unfolding upd_phase_def
  by (rule evolves_upd_instance) (auto split: option.splits)

lemma updateInstance_state: "fst (updateInstance env iid st) = st"
  by (simp add: updateInstance_def split: option.splits)

lemma updateInstance_eq: "updateInstance env iid st = (st', r) \<Longrightarrow> st' = st"
  using updateInstance_state [of env iid st] by simp

lemma saveInstance_eq: "saveInstance env iid st = (st', r) \<Longrightarrow> st' = st"
  by (auto simp: saveInstance_def split: option.splits if_splits)

lemma evolves_completeWorkflow: "completeWorkflow env iid st = (st', r) \<Longrightarrow> evolves st st'"
  by (auto simp: completeWorkflow_def evolves_refl split: option.splits
      dest!: updateInstance_eq intro!: evolves_upd_instance)

lemma evolves_failWorkflow: "failWorkflow env iid e st = (st', r) \<Longrightarrow> evolves st st'"
  by (auto simp: failWorkflow_def evolves_refl split: option.splits
      dest!: updateInstance_eq intro!: evolves_upd_instance)

lemma evolves_runPhaseExecutor:
  "runPhaseExecutor env iid pid phase st = (st', r) \<Longrightarrow> evolves st st'"
  by (auto simp: runPhaseExecutor_def evolves_refl split: option.splits prod.splits
      intro: evolves_trans [OF evolves_log_event evolves_upd_phase])

lemma evolves_try_block:
  assumes nested: "\<And>i t m s s' r. transitionTo i t m s = Some (s', r) \<Longrightarrow> evolves s s'"
    and run: "try_block transitionTo env iid pid phase st = Some (st', r)"
  shows "evolves st st'"
proof -
  obtain st1 r1 where a: "runPhaseExecutor env iid pid phase st = (st1, r1)"
    by (cases "runPhaseExecutor env iid pid phase st") auto
  then have e1: "evolves st st1" by (rule evolves_runPhaseExecutor)
  show ?thesis
  proof (cases r1)
    case (Some e)
    with run a have "st' = st1" by (simp add: try_block_def)
    with e1 show ?thesis by simp
  next
    case None
    define st2 where "st2 = upd_phase iid pid
                     (\<lambda>p. p\<lparr>pi_state := PCompleted, pi_completedAt := Some (now st1)\<rparr>) st1"
    have e2: "evolves st st2"
      unfolding st2_def by (rule evolves_trans [OF e1 evolves_upd_phase])
    obtain r2 where b: "updateInstance env iid st2 = (st2, r2)"
      by (metis updateInstance_state prod.collapse)
    show ?thesis
    proof (cases r2)
      case (Some e)
      with run a None b have "st' = st2" by (simp add: try_block_def st2_def)
      with e2 show ?thesis by simp
    next
      case r2: None
      show ?thesis
      proof (cases "ph_nextPhases phase")
        case Nil
        with run a None b r2 have "completeWorkflow env iid st2 = (st', r)"
          by (simp add: try_block_def st2_def)
        then have "evolves st2 st'" by (rule evolves_completeWorkflow)
        with e2 show ?thesis by (rule evolves_trans)
      next
        case (Cons nxt rest)
        show ?thesis
        proof (cases "nxt = []")
          case True
          with run a None b r2 Cons have "st' = st2" by (simp add: try_block_def st2_def)
          with e2 show ?thesis by simp
        next
          case False
          with run a None b r2 Cons obtain m where "transitionTo iid nxt m st2 = Some (st', r)"
            by (simp add: try_block_def st2_def)
          then have "evolves st2 st'" by (rule nested)
          with e2 show ?thesis by (rule evolves_trans)
        qed
      qed
    qed
  qed
qed

lemma evolves_catch_block:
  assumes nested: "\<And>i p s s' r. execPhase i p s = Some (s', r) \<Longrightarrow> evolves s s'"
    and run: "catch_block execPhase env iid pid error st = Some (st', r)"
  shows "evolves st st'"
proof -
  define st1 where "st1 = upd_phase iid pid
                  (\<lambda>p. p\<lparr>pi_state := PFailed, pi_error := Some error,
                          pi_completedAt := Some (now st)\<rparr>) st"
  have e1: "evolves st st1" unfolding st1_def by (rule evolves_upd_phase)
  show ?thesis
  proof (cases "enableRetries (config env)
            \<and> phase_retryCount st1 iid pid < retry_limit (config env)")
    case True
    with run have "execPhase iid pid
        (upd_phase iid pid (\<lambda>p. p\<lparr>pi_retryCount := Suc (pi_retryCount p)\<rparr>) st1) = Some (st', r)"
      by (simp add: catch_block_def st1_def Let_def)
    then have "evolves (upd_phase iid pid (\<lambda>p. p\<lparr>pi_retryCount := Suc (pi_retryCount p)\<rparr>) st1) st'"
      by (rule nested)
    with evolves_trans [OF e1 evolves_upd_phase] show ?thesis by (rule evolves_trans)
  next
    case False
    obtain r2 where b: "updateInstance env iid st1 = (st1, r2)"
      by (metis updateInstance_state prod.collapse)
    show ?thesis
    proof (cases r2)
      case (Some e)
      with run False b have "st' = st1"
        by (auto simp: catch_block_def st1_def Let_def)
      with e1 show ?thesis by simp
    next
      case None
      with run False b have "failWorkflow env iid error st1 = (st', r)"
        by (auto simp: catch_block_def st1_def Let_def)
      then have "evolves st1 st'" by (rule evolves_failWorkflow)
      with e1 show ?thesis by (rule evolves_trans)
    qed
  qed
qed

lemma evolves_executePhase_body_started:
  assumes n1: "\<And>i p s s' r. execPhase i p s = Some (s', r) \<Longrightarrow> evolves s s'"
    and n2: "\<And>i t m s s' r. transitionTo i t m s = Some (s', r) \<Longrightarrow> evolves s s'"
    and run: "executePhase_body execPhase transitionTo env iid pid st0 = Some (st', r)"
  shows "evolves (log_event (PhaseStarted iid pid) st0) st'"
proof -
  define st where "st = log_event (PhaseStarted iid pid) st0"
  have e0: "evolves st st" by (rule evolves_refl)
  have "evolves st st'"
  proof (cases "instances st iid")
    case None
    with run have "st' = st" by (simp add: executePhase_body_def st_def Let_def)
    with e0 show ?thesis by simp
  next
    case (Some wi)
    show ?thesis
    proof (cases "getPhase env (wi_workflowId wi) pid")
      case None
      with run Some have "st' = st" by (simp add: executePhase_body_def st_def Let_def)
      with e0 show ?thesis by simp
    next
      case ph: (Some phase)
      show ?thesis
      proof (cases "wi_phaseStates wi pid")
        case None
        with run Some ph have "st' = st" by (simp add: executePhase_body_def st_def Let_def)
        with e0 show ?thesis by simp
      next
        case p: (Some p)
        define st1 where "st1 = upd_phase iid pid
                   (\<lambda>p. p\<lparr>pi_state := PActive, pi_startedAt := Some (now st)\<rparr>) st"
        have e1: "evolves st st1"
          unfolding st1_def by (rule evolves_upd_phase)
        obtain r1 where b: "updateInstance env iid st1 = (st1, r1)"
          by (metis updateInstance_state prod.collapse)
        show ?thesis
        proof (cases r1)
          case (Some e)
          with run \<open>instances st iid = Some wi\<close> ph p b have "st' = st1"
            by (simp add: executePhase_body_def st_def [symmetric] st1_def [symmetric] Let_def)
          with e1 show ?thesis by simp
        next
          case None
          with run \<open>instances st iid = Some wi\<close> ph p b
          have c: "(case try_block transitionTo env iid pid phase st1 of
                            None \<Rightarrow> None
                          | Some (st2, None) \<Rightarrow> Some (st2, None)
                          | Some (st2, Some error) \<Rightarrow>
                              catch_block execPhase env iid pid error st2) = Some (st', r)"
            by (simp add: executePhase_body_def st_def [symmetric] st1_def [symmetric] Let_def)
          then obtain st2 r2 where t: "try_block transitionTo env iid pid phase st1 = Some (st2, r2)"
            by (cases "try_block transitionTo env iid pid phase st1") auto
          from evolves_try_block [OF n2 t] have e2: "evolves st1 st2" .
          show ?thesis
          proof (cases r2)
            case None
            with c t have "st' = st2" by simp
            with e1 e2 show ?thesis by (auto intro: evolves_trans)
          next
            case (Some error)
            with c t have "catch_block execPhase env iid pid error st2 = Some (st', r)" by simp
            from evolves_catch_block [OF n1 this] e1 e2 show ?thesis
              by (auto intro: evolves_trans)
          qed
        qed
      qed
    qed
  qed
then show ?thesis by (simp add: st_def)
qed

lemma evolves_executePhase_body:
  assumes n1: "\<And>i p s s' r. execPhase i p s = Some (s', r) \<Longrightarrow> evolves s s'"
    and n2: "\<And>i t m s s' r. transitionTo i t m s = Some (s', r) \<Longrightarrow> evolves s s'"
    and run: "executePhase_body execPhase transitionTo env iid pid st0 = Some (st', r)"
  shows "evolves st0 st'"
  by (rule evolves_trans [OF evolves_log_event evolves_executePhase_body_started [OF n1 n2 run]])

lemma transitionToPhase_body_cases:
  assumes "transitionToPhase_body execPhase env iid target ctx st0 = Some (st', r)"
  shows "st' = log_event (TransitionRequested iid target) st0
       \<or> (\<exists>cur. st' = log_event (ValidatorCalled iid cur target)
                       (log_event (TransitionRequested iid target) st0))
       \<or> (\<exists>cur. st' = moved_state iid cur target (log_event (TransitionRequested iid target) st0))
       \<or> (\<exists>cur. execPhase iid target
                   (moved_state iid cur target (log_event (TransitionRequested iid target) st0))
                 = Some (st', r))"
  using assms unfolding transitionToPhase_body_def Let_def moved_state_def
  by (auto split: option.splits if_splits prod.splits dest!: updateInstance_eq)

lemma evolves_moved_state: "evolves st (moved_state iid cur target st)"
  unfolding moved_state_def
  by (rule evolves_trans [OF evolves_log_event
        evolves_trans [OF evolves_upd_phase evolves_upd_instance]]) simp

lemma evolves_transitionToPhase_body:
  assumes n1: "\<And>i p s s' r. execPhase i p s = Some (s', r) \<Longrightarrow> evolves s s'"
    and run: "transitionToPhase_body execPhase env iid target ctx st0 = Some (st', r)"
  shows "evolves st0 st'"
  using transitionToPhase_body_cases [OF run]
  by (auto intro: evolves_log_event evolves_trans [OF evolves_log_event evolves_log_event]
        evolves_trans [OF evolves_log_event evolves_moved_state]
        evolves_trans [OF evolves_trans [OF evolves_log_event evolves_moved_state] n1])

lemma evolves_executePhase:
  "executePhase k env iid pid st = Some (st', r) \<Longrightarrow> evolves st st'"
proof (induction k arbitrary: iid pid st st' r)
  case 0
  then show ?case by simp
next
  case (Suc k)
  have n1: "\<And>i p s s' r. executePhase k env i p s = Some (s', r) \<Longrightarrow> evolves s s'"
    by (rule Suc.IH)
  have n2: "\<And>i t m s s' r. transitionToPhase_body (executePhase k env) env i t m s = Some (s', r)
      \<Longrightarrow> evolves s s'"
    by (rule evolves_transitionToPhase_body [OF n1])
  from Suc.prems show ?case
    by (simp add: evolves_executePhase_body [OF n1 n2])
qed


text \<open>Reading the state after a write.\<close>

lemma instances_log_event [simp]: "instances (log_event e st) = instances st"
  by (simp add: log_event_def)

lemma sm_log_log_event [simp]: "sm_log (log_event e st) = sm_log st @ [e]"
  by (simp add: log_event_def)

lemma now_log_event [simp]: "now (log_event e st) = Suc (now st)"
  by (simp add: now_def)

lemma sm_log_upd_instance [simp]: "sm_log (upd_instance iid f st) = sm_log st"
  by (simp add: upd_instance_def split: option.splits)

lemma sm_log_upd_phase [simp]: "sm_log (upd_phase iid pid f st) = sm_log st"
  by (simp add: upd_phase_def)

lemma now_upd_instance [simp]: "now (upd_instance iid f st) = now st"
  by (simp add: now_def)

lemma now_upd_phase [simp]: "now (upd_phase iid pid f st) = now st"
  by (simp add: now_def)


lemma instances_upd_phase_present:
  "instances st iid = Some wi \<Longrightarrow> wi_phaseStates wi pid = Some p \<Longrightarrow>
     instances (upd_phase iid pid f st) iid
       = Some (wi\<lparr>wi_phaseStates := (wi_phaseStates wi)(pid \<mapsto> f p)\<rparr>)"
  by (simp add: upd_phase_def upd_instance_def)

lemma updateInstance_quiet:
  "quiet_persistence env \<Longrightarrow> updateInstance env iid st = (st, None)"
  by (auto simp: updateInstance_def quiet_persistence_def split: option.splits)


lemma failWorkflow_quiet:
  "quiet_persistence env \<Longrightarrow> snd (failWorkflow env iid e st) = None"
  by (simp add: failWorkflow_def updateInstance_quiet split: option.splits)



lemma catch_block_unfold:
  assumes quiet: "quiet_persistence env"
    and i: "instances st iid = Some wi"
    and q: "wi_phaseStates wi pid = Some p"
  shows "catch_block execPhase env iid pid e st =
     (if enableRetries (config env) \<and> pi_retryCount p < retry_limit (config env) then
        execPhase iid pid
          (st\<lparr>instances := (instances st)
               (iid \<mapsto> wi\<lparr>wi_phaseStates := (wi_phaseStates wi)
                           (pid \<mapsto> p\<lparr>pi_state := PFailed, pi_error := Some e,
                                     pi_completedAt := Some (now st),
                                     pi_retryCount := Suc (pi_retryCount p)\<rparr>)\<rparr>)\<rparr>)
      else
        Some (st\<lparr>instances := (instances st)
               (iid \<mapsto> wi\<lparr>wi_phaseStates := (wi_phaseStates wi)
                           (pid \<mapsto> p\<lparr>pi_state := PFailed, pi_error := Some e,
                                     pi_completedAt := Some (now st)\<rparr>),
                         wi_state := MFailed, wi_completedAt := Some (now st),
                         wi_error := Some e\<rparr>)\<rparr>, None))"
  using i q
  by (simp add: catch_block_def Let_def phase_retryCount_def upd_phase_def upd_instance_def
      updateInstance_quiet [OF quiet] failWorkflow_def now_def)



text \<open>
  With a persistence layer that never throws, the only errors that leave \<open>executePhase\<close>
  are its own; a \<open>TransitionError\<close> that leaves \<open>transitionToPhase\<close> was thrown before any
  write to an instance.
\<close>

lemma catch_block_error_kind:
  assumes quiet: "quiet_persistence env"
    and nested: "\<And>i p s s' e. execPhase i p s = Some (s', Some e) \<Longrightarrow> is_StateMachineError e"
    and run: "catch_block execPhase env iid pid error st = Some (st', Some e)"
  shows "is_StateMachineError e"
proof -
  have fw: "failWorkflow env iid error s \<noteq> (st', Some e)" for s
    using failWorkflow_quiet [OF quiet, of iid error s] by auto
  from run show ?thesis
    unfolding catch_block_def Let_def
    by (auto simp: updateInstance_quiet [OF quiet] fw split: if_splits dest: nested)
qed

lemma executePhase_body_error_kind:
  assumes quiet: "quiet_persistence env"
    and nested: "\<And>i p s s' e. execPhase i p s = Some (s', Some e) \<Longrightarrow> is_StateMachineError e"
    and run: "executePhase_body execPhase transitionTo env iid pid st = Some (st', Some e)"
  shows "is_StateMachineError e"
proof -
  have "is_StateMachineError e
      \<or> (\<exists>s err. catch_block execPhase env iid pid err s = Some (st', Some e))"
    using run unfolding executePhase_body_def Let_def
    by (auto simp: updateInstance_quiet [OF quiet] is_StateMachineError_def
        split: option.splits prod.splits)
  then show ?thesis
  proof
    assume "is_StateMachineError e"
    then show ?thesis .
  next
    assume "\<exists>s err. catch_block execPhase env iid pid err s = Some (st', Some e)"
    then obtain s err where c: "catch_block execPhase env iid pid err s = Some (st', Some e)"
      by blast
    show ?thesis
      by (rule catch_block_error_kind [OF quiet _ c]) (rule nested)
  qed
qed

lemma executePhase_error_kind:
  "quiet_persistence env \<Longrightarrow> executePhase k env iid pid st = Some (st', Some e) \<Longrightarrow>
     is_StateMachineError e"
proof (induction k arbitrary: iid pid st st' e)
  case 0
  then show ?case by simp
next
  case (Suc k)
  from Suc.prems(2) have b:
    "executePhase_body (executePhase k env)
       (transitionToPhase_body (executePhase k env) env) env iid pid st = Some (st', Some e)"
    by simp
  show ?case
    by (rule executePhase_body_error_kind [OF Suc.prems(1) _ b]) (rule Suc.IH [OF Suc.prems(1)])
qed

lemma instances_moved_state_log:
  "sm_log (moved_state iid cur target st) = sm_log st @ [ValidatorCalled iid cur target]"
  by (simp add: moved_state_def)

lemma transitionToPhase_TransitionError:
  assumes quiet: "quiet_persistence env"
    and run: "transitionToPhase k env iid target ctx st = Some (st', Some (TransitionError m a b))"
  shows "instances st' = instances st"
  using run executePhase_error_kind [OF quiet, of k]
  unfolding transitionToPhase_def transitionToPhase_body_def Let_def
  by (auto simp: updateInstance_quiet [OF quiet] is_StateMachineError_def
      split: option.splits if_splits prod.splits) fastforce+

lemma transitionToPhase_body_log:
  assumes n1: "\<And>i p s s' r. execPhase i p s = Some (s', r) \<Longrightarrow> evolves s s'"
    and run: "transitionToPhase_body execPhase env iid target ctx st0 = Some (st', r)"
  shows "\<exists>tail. sm_log st' = sm_log st0 @ TransitionRequested iid target # tail"
proof -
  have "evolves (log_event (TransitionRequested iid target) st0) st'"
    using transitionToPhase_body_cases [OF run]
    by (auto intro: evolves_refl evolves_log_event evolves_moved_state
        evolves_trans [OF evolves_moved_state n1])
  then show ?thesis
    by (auto simp: evolves_def)
qed

lemma catch_block_log:
  assumes "catch_block (executePhase k env) env iid pid error st = Some (st', r)"
  shows "\<exists>tail. sm_log st' = sm_log st @ tail"
  using evolves_catch_block [OF evolves_executePhase assms]
  by (simp add: evolves_def)

text \<open>
  One entry into \<open>executePhase\<close> for a phase that is found, up to the return of the phase
  executor: the state reached, the outcome, and how the call continues.
\<close>

lemma executePhase_step:
  assumes inst: "instances st iid = Some wi"
    and ph: "getPhase env (wi_workflowId wi) pid = Some phase"
    and p: "wi_phaseStates wi pid = Some p"
    and quiet: "quiet_persistence env"
  shows "\<exists>n w q p' err st1 wi1.
           phaseExecutor env n w phase q = (p', err)
         \<and> pi_retryCount q = pi_retryCount p
         \<and> sm_log st1 = sm_log st @ [PhaseStarted iid pid, PhaseExecutorCalled iid pid]
         \<and> instances st1 iid = Some wi1 \<and> same_instance wi wi1
         \<and> wi_phaseStates wi1 pid = Some p'
         \<and> executePhase (Suc k) env iid pid st =
             (case err of
                Some e \<Rightarrow> catch_block (executePhase k env) env iid pid e st1
              | None \<Rightarrow>
                  (case (case ph_nextPhases phase of
                           [] \<Rightarrow> Some (completeWorkflow env iid
                                   (upd_phase iid pid
                                      (\<lambda>p. p\<lparr>pi_state := PCompleted,
                                              pi_completedAt := Some (now st1)\<rparr>) st1))
                         | nextPhaseId # rest \<Rightarrow>
                             if nextPhaseId \<noteq> [] then
                               transitionToPhase k env iid nextPhaseId
                                 (Some (case wi_metadata wi of
                                          None \<Rightarrow> empty_metadata | Some m \<Rightarrow> m))
                                 (upd_phase iid pid
                                    (\<lambda>p. p\<lparr>pi_state := PCompleted,
                                            pi_completedAt := Some (now st1)\<rparr>) st1)
                             else Some (upd_phase iid pid
                                    (\<lambda>p. p\<lparr>pi_state := PCompleted,
                                            pi_completedAt := Some (now st1)\<rparr>) st1, None)) of
                     None \<Rightarrow> None
                   | Some (st3, None) \<Rightarrow> Some (st3, None)
                   | Some (st3, Some error) \<Rightarrow>
                       catch_block (executePhase k env) env iid pid error st3))"
proof -
  define sta where "sta = log_event (PhaseStarted iid pid) st"
  define st0 where "st0 = upd_phase iid pid
       (\<lambda>p. p\<lparr>pi_state := PActive, pi_startedAt := Some (now sta)\<rparr>) sta"
  define p0 where "p0 = p\<lparr>pi_state := PActive, pi_startedAt := Some (now sta)\<rparr>"
  define wi0 where "wi0 = wi\<lparr>wi_phaseStates := (wi_phaseStates wi)(pid \<mapsto> p0)\<rparr>"
  have ia: "instances sta iid = Some wi" by (simp add: sta_def inst)
  have i0: "instances st0 iid = Some wi0"
    unfolding st0_def wi0_def p0_def using ia p by (simp add: instances_upd_phase_present)
  have q0: "wi_phaseStates wi0 pid = Some p0" by (simp add: wi0_def)
  obtain p' err where pe: "phaseExecutor env (now st0) wi0 phase p0 = (p', err)"
    by (cases "phaseExecutor env (now st0) wi0 phase p0") auto
  define stb where "stb = log_event (PhaseExecutorCalled iid pid) st0"
  define st1 where "st1 = upd_phase iid pid (\<lambda>_. p') stb"
  have run1: "runPhaseExecutor env iid pid phase st0 = (st1, err)"
    by (simp add: runPhaseExecutor_def i0 q0 pe st1_def stb_def)
  have ib: "instances stb iid = Some wi0" by (simp add: stb_def i0)
  define wi1 where "wi1 = wi0\<lparr>wi_phaseStates := (wi_phaseStates wi0)(pid \<mapsto> p')\<rparr>"
  have i1: "instances st1 iid = Some wi1"
    unfolding st1_def wi1_def using ib q0 by (simp add: instances_upd_phase_present)
  have log1: "sm_log st1 = sm_log st @ [PhaseStarted iid pid, PhaseExecutorCalled iid pid]"
    by (simp add: st1_def stb_def st0_def sta_def)
  have same: "same_instance wi wi1"
    using p by (auto simp: same_instance_def wi1_def wi0_def)
  have q1: "wi_phaseStates wi1 pid = Some p'" by (simp add: wi1_def)
  define st2 where "st2 = upd_phase iid pid
       (\<lambda>p. p\<lparr>pi_state := PCompleted, pi_completedAt := Some (now st1)\<rparr>) st1"
  have i2: "\<exists>wi2. instances st2 iid = Some wi2 \<and> wi_metadata wi2 = wi_metadata wi"
    unfolding st2_def using i1 q1
    by (simp add: instances_upd_phase_present wi1_def wi0_def)
  have tb: "try_block transitionTo env iid pid phase st0 =
      (case err of
         Some e \<Rightarrow> Some (st1, Some e)
       | None \<Rightarrow>
          (case ph_nextPhases phase of
             [] \<Rightarrow> Some (completeWorkflow env iid st2)
           | nextPhaseId # rest \<Rightarrow>
               if nextPhaseId \<noteq> [] then
                 transitionTo iid nextPhaseId
                   (Some (case wi_metadata wi of None \<Rightarrow> empty_metadata | Some m \<Rightarrow> m))
                   st2
               else Some (st2, None)))" for transitionTo
    using i2
    by (auto simp: try_block_def run1 updateInstance_quiet [OF quiet] st2_def [symmetric]
        split: list.splits option.splits)
  have main: "executePhase (Suc k) env iid pid st =
             (case err of
                Some e \<Rightarrow> catch_block (executePhase k env) env iid pid e st1
              | None \<Rightarrow>
                  (case (case ph_nextPhases phase of
                           [] \<Rightarrow> Some (completeWorkflow env iid st2)
                         | nextPhaseId # rest \<Rightarrow>
                             if nextPhaseId \<noteq> [] then
                               transitionToPhase k env iid nextPhaseId
                                 (Some (case wi_metadata wi of
                                          None \<Rightarrow> empty_metadata | Some m \<Rightarrow> m))
                                 st2
                             else Some (st2, None)) of
                     None \<Rightarrow> None
                   | Some (st3, None) \<Rightarrow> Some (st3, None)
                   | Some (st3, Some error) \<Rightarrow>
                       catch_block (executePhase k env) env iid pid error st3))"
    unfolding transitionToPhase_def
    by (simp add: executePhase_body_def Let_def sta_def [symmetric] ia ph p
        st0_def [symmetric] updateInstance_quiet [OF quiet] tb split: option.splits)
  have "pi_retryCount p0 = pi_retryCount p" by (simp add: p0_def)
  with pe log1 i1 same q1 main show ?thesis
    unfolding st2_def by blast
qed








text \<open>The phase executor of this package never writes the retry counter.\<close>

lemma PhaseExecutor_keeps_retryCount:
  "pi_retryCount (run_instance (PhaseExecutor_executePhase te md ph p clk)) = pi_retryCount p"
  by (simp add: PhaseExecutor_executePhase_def split: prod.splits)

text \<open>The example collaborators.\<close>

lemmas mock_defs = mock_collaborators_def single_phase_workflow_def mock_workflow_def
  branching_workflow_def mock_phase_def mock_transition_def test_config_def
  running_state_def new_instance_def initial_phaseStates_def new_phase_instance_def
  empty_state_def

lemma quiet_mock [simp]: "quiet_persistence (mock_collaborators workflow outcome cfg)"
  by (simp add: quiet_persistence_def mock_collaborators_def)

































section \<open>Results about StateMachine.transitionToPhase\<close>

text \<open>
  C7: for an instance whose current phase, workflow and both phases are found, a call of
  \<open>transitionToPhase\<close> that finds no transition to the target among the transitions
  available from the current phase throws the \<open>TransitionError\<close> "No valid transition
  found", and a call whose validator answers \<open>false\<close> throws the \<open>TransitionError\<close>
  "Transition validation failed". In both cases the table of instances is the one before
  the call: machine state, current phase and every phase instance are unchanged. (The
  validator is asked at the time after the entry into the call.)
\<close>

theorem transitionToPhase_rejection_leaves_instance:
  assumes "instances st iid = Some wi"
    and "wi_currentPhaseId wi = Some cur" and "cur \<noteq> []"
    and "getWorkflow env (wi_workflowId wi) = Some workflow"
    and "getPhase env (wi_workflowId wi) cur = Some fromPhase"
    and "getPhase env (wi_workflowId wi) target = Some toPhase"
  shows "(find (\<lambda>t. tr_to t = target) (getAvailableTransitions env (wi_workflowId wi) cur) = None
            \<longrightarrow> (\<exists>st'. transitionToPhase k env iid target ctx st
                          = Some (st', Some (TransitionError ''No valid transition found''
                                               cur target))
                       \<and> instances st' = instances st))
       \<and> (\<forall>tr. find (\<lambda>t. tr_to t = target) (getAvailableTransitions env (wi_workflowId wi) cur)
                  = Some tr
               \<and> \<not> canTransition env (Suc (now st))
                       \<lparr>tc_workflowInstance = wi, tc_fromPhase = fromPhase,
                        tc_toPhase = toPhase, tc_transition = tr, tc_metadata = ctx\<rparr>
            \<longrightarrow> (\<exists>st'. transitionToPhase k env iid target ctx st
                          = Some (st', Some (TransitionError ''Transition validation failed''
                                               cur target))
                       \<and> instances st' = instances st))"
  using assms
  by (simp add: transitionToPhase_def transitionToPhase_body_def Let_def)

text \<open>
  The theorem of C7 on the workflow of the unit tests: from \<open>phase2\<close> there is no transition
  to \<open>phase1\<close>; from \<open>phase1\<close> to \<open>phase2\<close> there is one, and the validator refuses it.
\<close>

theorem transitionToPhase_rejection_leaves_instance_witness:
  "(\<exists>st'. transitionToPhase 3
             (mock_collaborators mock_workflow (\<lambda>n. None) (test_config (Some 3)))
             ''i1'' ''phase1'' None (running_state mock_workflow ''i1'' ''phase2'')
           = Some (st', Some (TransitionError ''No valid transition found''
                                ''phase2'' ''phase1''))
         \<and> instances st' = instances (running_state mock_workflow ''i1'' ''phase2''))
   \<and> (\<exists>st'. transitionToPhase 3
             ((mock_collaborators mock_workflow (\<lambda>n. None) (test_config (Some 3)))
                \<lparr>canTransition := \<lambda>n c. False\<rparr>)
             ''i1'' ''phase2'' None (running_state mock_workflow ''i1'' ''phase1'')
           = Some (st', Some (TransitionError ''Transition validation failed''
                                ''phase1'' ''phase2''))
         \<and> instances st' = instances (running_state mock_workflow ''i1'' ''phase1''))"
proof -
  define env where
    "env = mock_collaborators mock_workflow (\<lambda>n. None) (test_config (Some 3))"
  define env' where "env' = env\<lparr>canTransition := \<lambda>n c. False\<rparr>"
  define wi where "wi = (\<lambda>cur. (new_instance mock_workflow ''i1'' (wf_id mock_workflow) None 0)
                          \<lparr>wi_currentPhaseId := Some cur\<rparr>)"
  have inst: "instances (running_state mock_workflow ''i1'' cur) ''i1'' = Some (wi cur)" for cur
    by (simp add: running_state_def wi_def)
  have cur: "wi_currentPhaseId (wi c) = Some c" for c by (simp add: wi_def)
  have wid: "wi_workflowId (wi c) = ''test-workflow''" for c
    by (simp add: wi_def mock_defs)
  have wf: "getWorkflow env ''test-workflow'' = Some mock_workflow"
    "getWorkflow env' ''test-workflow'' = Some mock_workflow"
    by (simp_all add: env'_def env_def mock_collaborators_def mock_workflow_def)
  have p1: "getPhase env ''test-workflow'' ''phase1'' = Some (mock_phase ''phase1'' [''phase2''])"
    "getPhase env' ''test-workflow'' ''phase1'' = Some (mock_phase ''phase1'' [''phase2''])"
    by (simp_all add: env'_def env_def mock_defs)
  have p2: "getPhase env ''test-workflow'' ''phase2'' = Some (mock_phase ''phase2'' [])"
    "getPhase env' ''test-workflow'' ''phase2'' = Some (mock_phase ''phase2'' [])"
    by (simp_all add: env'_def env_def mock_defs)
  have none: "find (\<lambda>t. tr_to t = ''phase1'')
                (getAvailableTransitions env ''test-workflow'' ''phase2'') = None"
    by (simp add: env_def mock_defs)
  have some: "find (\<lambda>t. tr_to t = ''phase2'')
                (getAvailableTransitions env' ''test-workflow'' ''phase1'')
              = Some (mock_transition ''phase1'' ''phase2'')"
    by (simp add: env'_def env_def mock_defs)
  have no: "\<not> canTransition env' n c" for n c
    by (simp add: env'_def)
  from transitionToPhase_rejection_leaves_instance
         [of "running_state mock_workflow ''i1'' ''phase2''" "''i1''" "wi ''phase2''"
             "''phase2''" env mock_workflow "mock_phase ''phase2'' []" "''phase1''"
             "mock_phase ''phase1'' [''phase2'']" 3 None]
       inst cur wf p1 p2 none
  have a: "\<exists>st'. transitionToPhase 3 env ''i1'' ''phase1'' None
                   (running_state mock_workflow ''i1'' ''phase2'')
           = Some (st', Some (TransitionError ''No valid transition found''
                                ''phase2'' ''phase1''))
         \<and> instances st' = instances (running_state mock_workflow ''i1'' ''phase2'')"
    by (simp add: wid)
  from transitionToPhase_rejection_leaves_instance
         [of "running_state mock_workflow ''i1'' ''phase1''" "''i1''" "wi ''phase1''"
             "''phase1''" env' mock_workflow "mock_phase ''phase1'' [''phase2'']" "''phase2''"
             "mock_phase ''phase2'' []" 3 None]
       inst cur wf p1 p2 some no
  have b: "\<exists>st'. transitionToPhase 3 env' ''i1'' ''phase2'' None
                   (running_state mock_workflow ''i1'' ''phase1'')
           = Some (st', Some (TransitionError ''Transition validation failed''
                                ''phase1'' ''phase2''))
         \<and> instances st' = instances (running_state mock_workflow ''i1'' ''phase1'')"
    by (simp add: wid)
  from a b show ?thesis
    unfolding env'_def env_def by blast
qed

section \<open>Results about StateMachine.executePhase\<close>




text \<open>
  C5: when the phase executor throws on every attempt at a phase (leaving the retry
  counter alone, persistence not throwing), \<open>executePhase\<close> returns, given enough fuel, with
  the workflow failed with an error thrown by the executor and the phase failed. With
  retries enabled the executor has been called once and then once per retry, the retry
  counter going up by one each time until it reaches the limit \<open>maxRetries || 3\<close>: for a
  configured \<open>maxRetries\<close> of at least 1 these are \<open>maxRetries\<close> additional attempts on a
  fresh phase; for \<open>maxRetries = 0\<close> the limit is 3. With retries disabled the executor has
  been called once and the counter is unchanged.
\<close>

theorem executePhase_persistent_failure:
  assumes quiet: "quiet_persistence env"
    and fails: "\<forall>n w q. snd (phaseExecutor env n w phase q) \<noteq> None
                  \<and> pi_retryCount (fst (phaseExecutor env n w phase q)) = pi_retryCount q"
  shows "instances st iid = Some wi \<Longrightarrow> getPhase env (wi_workflowId wi) pid = Some phase \<Longrightarrow>
     wi_phaseStates wi pid = Some p \<Longrightarrow> pi_retryCount p \<le> retry_limit (config env) \<Longrightarrow>
     (if enableRetries (config env) then Suc (retry_limit (config env) - pi_retryCount p) else 1)
       \<le> k \<Longrightarrow>
     \<exists>st' wi' p' n w q.
        executePhase k env iid pid st = Some (st', None)
      \<and> sm_log st' = sm_log st
           @ concat (replicate
               (if enableRetries (config env)
                then Suc (retry_limit (config env) - pi_retryCount p) else 1)
               [PhaseStarted iid pid, PhaseExecutorCalled iid pid])
      \<and> instances st' iid = Some wi' \<and> wi_state wi' = MFailed
      \<and> wi_error wi' = snd (phaseExecutor env n w phase q)
      \<and> wi_phaseStates wi' pid = Some p' \<and> pi_state p' = PFailed
      \<and> pi_retryCount p'
          = (if enableRetries (config env) then retry_limit (config env) else pi_retryCount p)"
proof (induction k arbitrary: st wi p)
  case 0
  then show ?case by (simp split: if_splits)
next
  case (Suc k)
  let ?X = "[PhaseStarted iid pid, PhaseExecutorCalled iid pid]"
  let ?lim = "retry_limit (config env)"
  from executePhase_step [OF Suc.prems(1) Suc.prems(2) Suc.prems(3) quiet, of k]
  obtain n w q p' err st1 wi1 where
    pe: "phaseExecutor env n w phase q = (p', err)"
    and rc: "pi_retryCount q = pi_retryCount p"
    and log1: "sm_log st1 = sm_log st @ ?X"
    and i1: "instances st1 iid = Some wi1" and same: "same_instance wi wi1"
    and q1: "wi_phaseStates wi1 pid = Some p'"
    and step: "executePhase (Suc k) env iid pid st =
             (case err of
                Some e \<Rightarrow> catch_block (executePhase k env) env iid pid e st1
              | None \<Rightarrow>
                  (case (case ph_nextPhases phase of
                           [] \<Rightarrow> Some (completeWorkflow env iid
                                   (upd_phase iid pid
                                      (\<lambda>p. p\<lparr>pi_state := PCompleted,
                                              pi_completedAt := Some (now st1)\<rparr>) st1))
                         | nextPhaseId # rest \<Rightarrow>
                             if nextPhaseId \<noteq> [] then
                               transitionToPhase k env iid nextPhaseId
                                 (Some (case wi_metadata wi of
                                          None \<Rightarrow> empty_metadata | Some m \<Rightarrow> m))
                                 (upd_phase iid pid
                                    (\<lambda>p. p\<lparr>pi_state := PCompleted,
                                            pi_completedAt := Some (now st1)\<rparr>) st1)
                             else Some (upd_phase iid pid
                                    (\<lambda>p. p\<lparr>pi_state := PCompleted,
                                            pi_completedAt := Some (now st1)\<rparr>) st1, None)) of
                     None \<Rightarrow> None
                   | Some (st3, None) \<Rightarrow> Some (st3, None)
                   | Some (st3, Some error) \<Rightarrow>
                       catch_block (executePhase k env) env iid pid error st3))"
    by blast
  from fails pe obtain e where err: "err = Some e"
    by (metis not_None_eq snd_conv)
  from fails pe rc have rc': "pi_retryCount p' = pi_retryCount p"
    by (metis fst_conv)
  have thrown: "Some e = snd (phaseExecutor env n w phase q)"
    by (simp add: pe err)
  have wid: "wi_workflowId wi1 = wi_workflowId wi"
    using same by (simp add: same_instance_def)
  note cb = catch_block_unfold [OF quiet i1 q1, of "executePhase k env" e]
  from step have step': "executePhase (Suc k) env iid pid st
      = catch_block (executePhase k env) env iid pid e st1"
    by (simp add: err del: executePhase.simps)
  show ?case
  proof (cases "enableRetries (config env) \<and> pi_retryCount p < ?lim")
    case True
    define pr where "pr = p'\<lparr>pi_state := PFailed, pi_error := Some e,
                             pi_completedAt := Some (now st1),
                             pi_retryCount := Suc (pi_retryCount p')\<rparr>"
    define wr where "wr = wi1\<lparr>wi_phaseStates := (wi_phaseStates wi1)(pid \<mapsto> pr)\<rparr>"
    define sr where "sr = st1\<lparr>instances := (instances st1)(iid \<mapsto> wr)\<rparr>"
    have run: "executePhase (Suc k) env iid pid st = executePhase k env iid pid sr"
      using True by (simp add: step' cb rc' sr_def wr_def pr_def del: executePhase.simps)
    have a1: "instances sr iid = Some wr" by (simp add: sr_def)
    have a2: "getPhase env (wi_workflowId wr) pid = Some phase"
      using Suc.prems(2) by (simp add: wr_def wid)
    have a3: "wi_phaseStates wr pid = Some pr" by (simp add: wr_def)
    have a4: "pi_retryCount pr \<le> ?lim" using True by (simp add: pr_def rc')
    have a5: "(if enableRetries (config env) then Suc (?lim - pi_retryCount pr) else 1) \<le> k"
      using True Suc.prems(5) by (simp add: pr_def rc') arith
    from Suc.IH [OF a1 a2 a3 a4 a5]
    obtain st' wi' p'' n' w' q' where
      r: "executePhase k env iid pid sr = Some (st', None)"
      and l: "sm_log st' = sm_log sr
           @ concat (replicate
               (if enableRetries (config env) then Suc (?lim - pi_retryCount pr) else 1) ?X)"
      and rest: "instances st' iid = Some wi'" "wi_state wi' = MFailed"
        "wi_error wi' = snd (phaseExecutor env n' w' phase q')"
        "wi_phaseStates wi' pid = Some p''" "pi_state p'' = PFailed"
        "pi_retryCount p''
          = (if enableRetries (config env) then ?lim else pi_retryCount pr)"
      by blast
    define m where "m = ?lim - Suc (pi_retryCount p)"
    have n: "?lim - pi_retryCount p = Suc m"
      using True unfolding m_def by arith
    have lr: "sm_log st' = (sm_log st @ ?X) @ concat (replicate (Suc m) ?X)"
      using True l by (simp add: sr_def log1 pr_def rc' m_def)
    have l': "sm_log st' = sm_log st
           @ concat (replicate
               (if enableRetries (config env) then Suc (?lim - pi_retryCount p) else 1) ?X)"
      using True by (simp add: lr n)
    from r rest l' True show ?thesis
      unfolding run by (intro exI [of _ st'] exI [of _ wi'] exI [of _ p''] exI [of _ n']
          exI [of _ w'] exI [of _ q']) simp
  next
    case False
    define pf where "pf = p'\<lparr>pi_state := PFailed, pi_error := Some e,
                             pi_completedAt := Some (now st1)\<rparr>"
    define wf' where "wf' = wi1\<lparr>wi_phaseStates := (wi_phaseStates wi1)(pid \<mapsto> pf),
                         wi_state := MFailed, wi_completedAt := Some (now st1),
                         wi_error := Some e\<rparr>"
    define sf where "sf = st1\<lparr>instances := (instances st1)(iid \<mapsto> wf')\<rparr>"
    have run: "executePhase (Suc k) env iid pid st = Some (sf, None)"
      using False by (cases "enableRetries (config env)")
        (simp_all add: step' cb rc' sf_def wf'_def pf_def del: executePhase.simps)
    have one: "(if enableRetries (config env) then Suc (?lim - pi_retryCount p) else 1) = 1"
      using False Suc.prems(4) by simp
    have cnt: "pi_retryCount pf
          = (if enableRetries (config env) then ?lim else pi_retryCount p)"
      using False Suc.prems(4) by (simp add: pf_def rc')
    have "sm_log sf = sm_log st @ concat (replicate 1 ?X)"
      by (simp add: sf_def log1)
    moreover have "instances sf iid = Some wf'" by (simp add: sf_def)
    moreover have "wi_state wf' = MFailed" by (simp add: wf'_def)
    moreover have "wi_error wf' = snd (phaseExecutor env n w phase q)"
      by (simp add: wf'_def thrown)
    moreover have "wi_phaseStates wf' pid = Some pf" by (simp add: wf'_def)
    moreover have "pi_state pf = PFailed" by (simp add: pf_def)
    ultimately show ?thesis
      unfolding run one using cnt by blast
  qed
qed

text \<open>
  The theorem of C5 at \<open>maxRetries = 0\<close> with retries enabled: four attempts, the retry
  counter ends at 3.
\<close>

theorem executePhase_persistent_failure_witness:
  "maxRetries (test_config (Some 0)) = Some 0
   \<and> enableRetries (test_config (Some 0))
   \<and> (\<exists>st' wi' p'.
         executePhase 4
           (mock_collaborators single_phase_workflow
              (\<lambda>n. Some (JsError ''Persistent failure'')) (test_config (Some 0)))
           ''i1'' ''phase1'' (running_state single_phase_workflow ''i1'' ''phase1'')
           = Some (st', None)
       \<and> sm_log st'
           = [PhaseStarted ''i1'' ''phase1'', PhaseExecutorCalled ''i1'' ''phase1'',
              PhaseStarted ''i1'' ''phase1'', PhaseExecutorCalled ''i1'' ''phase1'',
              PhaseStarted ''i1'' ''phase1'', PhaseExecutorCalled ''i1'' ''phase1'',
              PhaseStarted ''i1'' ''phase1'', PhaseExecutorCalled ''i1'' ''phase1'']
       \<and> instances st' ''i1'' = Some wi' \<and> wi_state wi' = MFailed
       \<and> wi_error wi' = Some (JsError ''Persistent failure'')
       \<and> wi_phaseStates wi' ''phase1'' = Some p' \<and> pi_state p' = PFailed
       \<and> pi_retryCount p' = 3)"
proof -
  define env where
    "env = mock_collaborators single_phase_workflow
              (\<lambda>n. Some (JsError ''Persistent failure'')) (test_config (Some 0))"
  define st where "st = running_state single_phase_workflow ''i1'' ''phase1''"
  define wi where "wi = (new_instance single_phase_workflow ''i1''
                           (wf_id single_phase_workflow) None 0)
                          \<lparr>wi_currentPhaseId := Some ''phase1''\<rparr>"
  have quiet: "quiet_persistence env" by (simp add: env_def)
  have fails: "\<forall>n w q. snd (phaseExecutor env n w (mock_phase ''phase1'' []) q) \<noteq> None
      \<and> pi_retryCount (fst (phaseExecutor env n w (mock_phase ''phase1'' []) q))
          = pi_retryCount q"
    by (simp add: env_def mock_collaborators_def)
  have thrown: "snd (phaseExecutor env n w (mock_phase ''phase1'' []) q)
      = Some (JsError ''Persistent failure'')" for n w q
    by (simp add: env_def mock_collaborators_def)
  have inst: "instances st ''i1'' = Some wi"
    by (simp add: st_def wi_def running_state_def)
  have ph: "getPhase env (wi_workflowId wi) ''phase1'' = Some (mock_phase ''phase1'' [])"
    by (simp add: env_def wi_def mock_defs)
  have p: "wi_phaseStates wi ''phase1'' = Some (new_phase_instance ''phase1'')"
    by (simp add: wi_def mock_defs)
  have lim: "retry_limit (config env) = 3"
    by (simp add: env_def mock_defs retry_limit_def)
  have en: "enableRetries (config env)"
    by (simp add: env_def mock_defs)
  have c: "pi_retryCount (new_phase_instance ''phase1'') \<le> retry_limit (config env)"
    by (simp add: new_phase_instance_def)
  have fuel: "(if enableRetries (config env)
               then Suc (retry_limit (config env) - pi_retryCount (new_phase_instance ''phase1''))
               else 1) \<le> 4"
    by (simp add: lim new_phase_instance_def)
  have four: "(if enableRetries (config env)
               then Suc (retry_limit (config env) - pi_retryCount (new_phase_instance ''phase1''))
               else 1) = Suc (Suc (Suc (Suc 0)))"
    by (simp add: lim en new_phase_instance_def)
  from executePhase_persistent_failure [OF quiet fails inst ph p c fuel]
  obtain st' wi' p' n w q where
    "executePhase 4 env ''i1'' ''phase1'' st = Some (st', None)"
    "sm_log st' = sm_log st
       @ concat (replicate (Suc (Suc (Suc (Suc 0))))
           [PhaseStarted ''i1'' ''phase1'', PhaseExecutorCalled ''i1'' ''phase1''])"
    "instances st' ''i1'' = Some wi'" "wi_state wi' = MFailed"
    "wi_error wi' = snd (phaseExecutor env n w (mock_phase ''phase1'' []) q)"
    "wi_phaseStates wi' ''phase1'' = Some p'" "pi_state p' = PFailed"
    "pi_retryCount p' = (if enableRetries (config env) then retry_limit (config env)
                         else pi_retryCount (new_phase_instance ''phase1''))"
    unfolding four by blast
  then have "executePhase 4 env ''i1'' ''phase1'' st = Some (st', None)
       \<and> sm_log st'
           = [PhaseStarted ''i1'' ''phase1'', PhaseExecutorCalled ''i1'' ''phase1'',
              PhaseStarted ''i1'' ''phase1'', PhaseExecutorCalled ''i1'' ''phase1'',
              PhaseStarted ''i1'' ''phase1'', PhaseExecutorCalled ''i1'' ''phase1'',
              PhaseStarted ''i1'' ''phase1'', PhaseExecutorCalled ''i1'' ''phase1'']
       \<and> instances st' ''i1'' = Some wi' \<and> wi_state wi' = MFailed
       \<and> wi_error wi' = Some (JsError ''Persistent failure'')
       \<and> wi_phaseStates wi' ''phase1'' = Some p' \<and> pi_state p' = PFailed
       \<and> pi_retryCount p' = 3"
    by (simp add: thrown lim en st_def running_state_def)
  moreover have "maxRetries (test_config (Some 0)) = Some 0 \<and> enableRetries (test_config (Some 0))"
    by (simp add: test_config_def)
  ultimately show ?thesis
    unfolding env_def st_def by blast
qed

section \<open>Results about StateMachine.startWorkflow\<close>




end
